theory Spec2Isabelle
  imports Main "HOL-Library.Word" "HOL-Library.Multiset"
begin

section \<open>Data model\<close>

text \<open>
  The pool of \<^verbatim>\<open>vulkan_surface_pool.cc\<close> is embedded by explicit state passing: every
  member function of \<^verbatim>\<open>VulkanSurfacePool\<close> becomes a function from the pool's state to
  its state after the call (and the returned handle, where there is one). A
  \<^verbatim>\<open>std::unique_ptr<VulkanSurface>\<close> that may be null is a \<open>VulkanSurface option\<close>.
  The trailing underscore of the member names is dropped, \<^verbatim>\<open>buffer_id_\<close> is
  \<open>next_buffer_id\<close>, and a size argument is \<open>sz\<close>.
\<close>

text \<open>\<^verbatim>\<open>SkISize\<close>: two 32-bit integers, compared field by field.\<close>

record SkISize =
  fWidth :: "32 word"
  fHeight :: "32 word"

text \<open>
  Modelled from the spec: the class \<^verbatim>\<open>VulkanSurface\<close> (declared in \<^verbatim>\<open>vulkan_surface.h\<close>, not
  part of the sources at hand). A surface carries what the pool reads through its
  interface: the identifier it was constructed with, its size, its validity, its age,
  the oversize and stable-size-history predicates, its allocation size and the outcome of
  flushing its acquire and release events. \<open>ptr\<close> is the address of the object, the value
  \<^verbatim>\<open>unique_ptr::get()\<close> returns; \<open>on_writes_committed\<close> is the callback registered by
  \<^verbatim>\<open>SignalWritesFinished\<close>, recorded by the key that the callback passes to
  \<^verbatim>\<open>RecyclePendingSurface\<close>.
\<close>

record VulkanSurface =
  ptr :: "64 word"
  buffer_id :: "32 word"
  GetSize :: SkISize
  IsValid :: bool
  age :: nat
  IsOversized :: bool
  HasStableSizeHistory :: bool
  GetAllocationSize :: "64 word"
  FlushSessionAcquireAndReleaseEvents :: bool
  on_writes_committed :: "64 word option"

text \<open>
  Modelled from the spec: \<^verbatim>\<open>VulkanSurface::AdvanceAndGetAge\<close> (not part of the sources at
  hand) advances the age by one unit and returns the advanced age.
\<close>

definition AdvanceAndGetAge :: "VulkanSurface \<Rightarrow> nat \<times> VulkanSurface" where
  "AdvanceAndGetAge surface = (age surface + 1, surface\<lparr>age := age surface + 1\<rparr>)"

text \<open>
  Modelled from the spec: \<^verbatim>\<open>VulkanSurface::SignalWritesFinished\<close> (not part of the sources at
  hand) registers the completion callback with the surface. The callback the pool passes
  is \<^verbatim>\<open>RecyclePendingSurface\<close> bound to a key, so the key stands for the callback.
\<close>

definition SignalWritesFinished :: "64 word \<Rightarrow> VulkanSurface \<Rightarrow> VulkanSurface" where
  "SignalWritesFinished surface_key surface = surface\<lparr>on_writes_committed := Some surface_key\<rparr>"

text \<open>
  The constructor of \<^verbatim>\<open>VulkanSurface\<close> is external: it is a parameter of the model, a
  function of the requested size and of the identifier (the provider, the allocator, the
  context and the session it also receives are fixed for one pool).
  \<^verbatim>\<open>std::make_unique\<close> never yields null; a failed construction is an invalid surface.
\<close>

type_synonym surface_ctor = "SkISize \<Rightarrow> 32 word \<Rightarrow> VulkanSurface"

text \<open>
  The members of \<^verbatim>\<open>VulkanSurfacePool\<close> that the operations read or write. The two trace
  counters are \<^verbatim>\<open>size_t\<close> and the identifier counter is \<^verbatim>\<open>uint32_t\<close>, so \<open>+ 1\<close> wraps.
  The pending surfaces are an \<^verbatim>\<open>unordered_map\<close> keyed by \<^verbatim>\<open>uintptr_t\<close>.
\<close>

record VulkanSurfacePool =
  available_surfaces :: "VulkanSurface list"
  pending_surfaces :: "64 word \<rightharpoonup> VulkanSurface"
  next_buffer_id :: "32 word"
  trace_surfaces_created :: "64 word"
  trace_surfaces_reused :: "64 word"

section \<open>Iterators over the vector of available surfaces\<close>

text \<open>
  \<^verbatim>\<open>std::find_if\<close> returns the position of the first element that satisfies the predicate,
  and the end position (the length) when there is none. \<^verbatim>\<open>vector::erase\<close> at a position
  removes that one element and keeps the order of the others.
\<close>

fun find_if :: "('a \<Rightarrow> bool) \<Rightarrow> 'a list \<Rightarrow> nat" where
  "find_if P [] = 0"
| "find_if P (x # xs) = (if P x then 0 else Suc (find_if P xs))"

definition erase :: "nat \<Rightarrow> 'a list \<Rightarrow> 'a list" where
  "erase i xs = take i xs @ drop (Suc i) xs"

section \<open>Statistics\<close>

text \<open>
  \<^verbatim>\<open>TraceStats\<close> emits two trace counters (write-only for the pool) and then resets the
  per-frame counters. The byte count it sums over the available surfaces is
  \<open>cached_surfaces_bytes\<close>.
\<close>

definition cached_surfaces_bytes :: "VulkanSurfacePool \<Rightarrow> 64 word" where
  "cached_surfaces_bytes p = fold (\<lambda>surface b. b + GetAllocationSize surface) (available_surfaces p) 0"

definition TraceStats :: "VulkanSurfacePool \<Rightarrow> VulkanSurfacePool" where
  "TraceStats p = p\<lparr>trace_surfaces_created := 0, trace_surfaces_reused := 0\<rparr>"

section \<open>Creating and acquiring\<close>

definition CreateSurface ::
  "surface_ctor \<Rightarrow> SkISize \<Rightarrow> VulkanSurfacePool \<Rightarrow> VulkanSurface option \<times> VulkanSurfacePool" where
  "CreateSurface mk sz p =
     (let surface = mk sz (next_buffer_id p);
          p1 = p\<lparr>next_buffer_id := next_buffer_id p + 1\<rparr>
      in if \<not> IsValid surface then (None, p1)
         else (Some surface, p1\<lparr>trace_surfaces_created := trace_surfaces_created p1 + 1\<rparr>))"

definition GetCachedOrCreateSurface ::
  "surface_ctor \<Rightarrow> SkISize \<Rightarrow> VulkanSurfacePool \<Rightarrow> VulkanSurface option \<times> VulkanSurfacePool" where
  "GetCachedOrCreateSurface mk sz p =
     (let exact_match_it =
            find_if (\<lambda>surface. IsValid surface \<and> GetSize surface = sz) (available_surfaces p)
      in if exact_match_it \<noteq> length (available_surfaces p)
         then (Some (available_surfaces p ! exact_match_it),
               p\<lparr>available_surfaces := erase exact_match_it (available_surfaces p)\<rparr>)
         else CreateSurface mk sz p)"

definition AcquireSurface ::
  "surface_ctor \<Rightarrow> SkISize \<Rightarrow> VulkanSurfacePool \<Rightarrow> VulkanSurface option \<times> VulkanSurfacePool" where
  "AcquireSurface mk sz p =
     (case GetCachedOrCreateSurface mk sz p of
        (None, p1) \<Rightarrow> (None, p1)
      | (Some surface, p1) \<Rightarrow>
          if \<not> FlushSessionAcquireAndReleaseEvents surface then (None, p1)
          else (Some surface, p1))"

section \<open>Submitting and recycling\<close>

text \<open>
  \<^verbatim>\<open>kMaxSurfaces\<close> and \<^verbatim>\<open>kMaxSurfaceAge\<close> are constants of the class declaration, which
  is not part of the sources at hand: they are parameters of the operations that read them.
\<close>

definition RecycleSurface :: "nat \<Rightarrow> VulkanSurface \<Rightarrow> VulkanSurfacePool \<Rightarrow> VulkanSurfacePool" where
  "RecycleSurface kMaxSurfaces surface p =
     (if \<not> IsValid surface then p
      else TraceStats
        (if length (available_surfaces p) < kMaxSurfaces
         then p\<lparr>available_surfaces := available_surfaces p @ [surface]\<rparr>
         else p))"

definition RecyclePendingSurface :: "nat \<Rightarrow> 64 word \<Rightarrow> VulkanSurfacePool \<Rightarrow> VulkanSurfacePool" where
  "RecyclePendingSurface kMaxSurfaces surface_key p =
     (case pending_surfaces p surface_key of
        None \<Rightarrow> p
      | Some surface_to_recycle \<Rightarrow>
          RecycleSurface kMaxSurfaces surface_to_recycle
            (p\<lparr>pending_surfaces := (pending_surfaces p)(surface_key := None)\<rparr>))"

text \<open>
  \<^verbatim>\<open>SubmitSurface\<close>: a null handle returns at once. The key is the address of the surface.
  \<^verbatim>\<open>unordered_map::insert\<close> leaves the map as it is when the key is present, and only a
  successful insertion registers the callback on the stored surface.
\<close>

definition SubmitSurface :: "VulkanSurface option \<Rightarrow> VulkanSurfacePool \<Rightarrow> VulkanSurfacePool" where
  "SubmitSurface p_surface p =
     (case p_surface of
        None \<Rightarrow> p
      | Some vulkan_surface \<Rightarrow>
          (let surface_key = ptr vulkan_surface
           in case pending_surfaces p surface_key of
                Some _ \<Rightarrow> p
              | None \<Rightarrow>
                  p\<lparr>pending_surfaces := (pending_surfaces p)
                       (surface_key \<mapsto> SignalWritesFinished surface_key vulkan_surface)\<rparr>))"

section \<open>Aging and collecting\<close>

text \<open>
  The predicate handed to \<^verbatim>\<open>std::remove_if\<close> has an effect on the surface it is asked
  about: \<open>||\<close> evaluates its right operand, which advances the age, only when the surface is
  valid. It returns whether the surface is to be removed, and the surface afterwards.
\<close>

definition invalid_or_too_old :: "nat \<Rightarrow> VulkanSurface \<Rightarrow> bool \<times> VulkanSurface" where
  "invalid_or_too_old kMaxSurfaceAge surface =
     (if \<not> IsValid surface then (True, surface)
      else (case AdvanceAndGetAge surface of
              (a, surface1) \<Rightarrow> (a \<ge> kMaxSurfaceAge, surface1)))"

text \<open>
  \<^verbatim>\<open>erase(remove_if(...), end())\<close>: the predicate is applied once to each element, in order;
  the elements it rejects stay, in order.
\<close>

fun remove_if :: "('a \<Rightarrow> bool \<times> 'a) \<Rightarrow> 'a list \<Rightarrow> 'a list" where
  "remove_if pred [] = []"
| "remove_if pred (x # xs) =
     (case pred x of
        (True, _) \<Rightarrow> remove_if pred xs
      | (False, x1) \<Rightarrow> x1 # remove_if pred xs)"

definition collect_old :: "nat \<Rightarrow> VulkanSurfacePool \<Rightarrow> VulkanSurfacePool" where
  "collect_old kMaxSurfaceAge p =
     p\<lparr>available_surfaces := remove_if (invalid_or_too_old kMaxSurfaceAge) (available_surfaces p)\<rparr>"

definition replace_oversized :: "surface_ctor \<Rightarrow> VulkanSurfacePool \<Rightarrow> VulkanSurfacePool" where
  "replace_oversized mk p =
     (let surface_to_remove_it =
            find_if (\<lambda>surface. IsOversized surface \<and> HasStableSizeHistory surface)
              (available_surfaces p)
      in if surface_to_remove_it \<noteq> length (available_surfaces p)
         then (let sz = GetSize (available_surfaces p ! surface_to_remove_it);
                   p1 = p\<lparr>available_surfaces := erase surface_to_remove_it (available_surfaces p)\<rparr>
               in case CreateSurface mk sz p1 of
                    (Some new_surface, p2) \<Rightarrow>
                      p2\<lparr>available_surfaces := available_surfaces p2 @ [new_surface]\<rparr>
                  | (None, p2) \<Rightarrow> p2)
         else p)"

definition AgeAndCollectOldBuffers ::
  "surface_ctor \<Rightarrow> nat \<Rightarrow> VulkanSurfacePool \<Rightarrow> VulkanSurfacePool" where
  "AgeAndCollectOldBuffers mk kMaxSurfaceAge p =
     TraceStats (replace_oversized mk (collect_old kMaxSurfaceAge p))"

section \<open>Shrinking to fit\<close>

text \<open>
  The first loop walks the vector, records the size of every oversized surface and resets
  its handle, which leaves a null entry in place; the null entries are erased afterwards.
  The second loop creates one surface for each recorded size, in order.
\<close>

fun reset_oversized :: "VulkanSurface list \<Rightarrow> SkISize list \<times> VulkanSurface option list" where
  "reset_oversized [] = ([], [])"
| "reset_oversized (surface # rest) =
     (case reset_oversized rest of
        (sizes, v) \<Rightarrow>
          if IsOversized surface then (GetSize surface # sizes, None # v)
          else (sizes, Some surface # v))"

fun remove_nullptr :: "'a option list \<Rightarrow> 'a list" where
  "remove_nullptr [] = []"
| "remove_nullptr (None # v) = remove_nullptr v"
| "remove_nullptr (Some x # v) = x # remove_nullptr v"

fun recreate :: "surface_ctor \<Rightarrow> SkISize list \<Rightarrow> VulkanSurfacePool \<Rightarrow> VulkanSurfacePool" where
  "recreate mk [] p = p"
| "recreate mk (sz # sizes) p =
     (case CreateSurface mk sz p of
        (Some surface, p1) \<Rightarrow>
          recreate mk sizes (p1\<lparr>available_surfaces := available_surfaces p1 @ [surface]\<rparr>)
      | (None, p1) \<Rightarrow> recreate mk sizes p1)"

definition ShrinkToFit :: "surface_ctor \<Rightarrow> VulkanSurfacePool \<Rightarrow> VulkanSurfacePool" where
  "ShrinkToFit mk p =
     (case reset_oversized (available_surfaces p) of
        (sizes_to_recreate, v) \<Rightarrow>
          TraceStats (recreate mk sizes_to_recreate (p\<lparr>available_surfaces := remove_nullptr v\<rparr>)))"

section \<open>Construction\<close>

text \<open>
  \<^verbatim>\<open>ZX_OK\<close> is the success status of Zircon, zero. The constructor connects to the sysmem
  allocator and checks the status with \<^verbatim>\<open>FML_DCHECK\<close>, which aborts in a debug build when
  its condition is false and is compiled out otherwise. The condition is \<open>ctor_dcheck\<close>.
\<close>

definition ZX_OK :: "32 word" where
  "ZX_OK = 0"

datatype error = DcheckFailed

definition ctor_dcheck :: "32 word \<Rightarrow> bool" where
  "ctor_dcheck status = (status \<noteq> ZX_OK)"

text \<open>
  Modelled from the spec: the member initialisers of the class declaration (not part of
  the sources at hand). The pool starts with no surface, identifiers start from 0 and the
  counters from zero.
\<close>

definition initial_pool :: VulkanSurfacePool where
  "initial_pool =
     \<lparr>available_surfaces = [], pending_surfaces = Map.empty, next_buffer_id = 0,
      trace_surfaces_created = 0, trace_surfaces_reused = 0\<rparr>"

definition VulkanSurfacePool_ctor :: "bool \<Rightarrow> 32 word \<Rightarrow> error + VulkanSurfacePool" where
  "VulkanSurfacePool_ctor debug_build status =
     (if debug_build \<and> \<not> ctor_dcheck status then Inl DcheckFailed else Inr initial_pool)"

section \<open>The order of destruction and construction in shrinking\<close>

text \<open>
  The order in which \<^verbatim>\<open>ShrinkToFit\<close> destroys and constructs surfaces is an effect that the
  state it leaves does not show. The functions below are the same loops, each returning in
  addition the events in the order the code causes them: \<^verbatim>\<open>surface.reset()\<close> destroys the
  surface the handle held, \<^verbatim>\<open>std::make_unique\<close> constructs one, and returning null from
  \<^verbatim>\<open>CreateSurface\<close> lets the handle of the invalid surface go out of scope, which destroys
  it.
\<close>

datatype event = Destroyed VulkanSurface | Constructed VulkanSurface

definition CreateSurface_events ::
  "surface_ctor \<Rightarrow> SkISize \<Rightarrow> VulkanSurfacePool
     \<Rightarrow> event list \<times> VulkanSurface option \<times> VulkanSurfacePool" where
  "CreateSurface_events mk sz p =
     (let surface = mk sz (next_buffer_id p);
          p1 = p\<lparr>next_buffer_id := next_buffer_id p + 1\<rparr>
      in if \<not> IsValid surface then ([Constructed surface, Destroyed surface], None, p1)
         else ([Constructed surface], Some surface,
               p1\<lparr>trace_surfaces_created := trace_surfaces_created p1 + 1\<rparr>))"

fun reset_oversized_events ::
  "VulkanSurface list \<Rightarrow> event list \<times> SkISize list \<times> VulkanSurface option list" where
  "reset_oversized_events [] = ([], [], [])"
| "reset_oversized_events (surface # rest) =
     (case reset_oversized_events rest of
        (evs, sizes, v) \<Rightarrow>
          if IsOversized surface
          then (Destroyed surface # evs, GetSize surface # sizes, None # v)
          else (evs, sizes, Some surface # v))"

fun recreate_events ::
  "surface_ctor \<Rightarrow> SkISize list \<Rightarrow> VulkanSurfacePool \<Rightarrow> event list \<times> VulkanSurfacePool" where
  "recreate_events mk [] p = ([], p)"
| "recreate_events mk (sz # sizes) p =
     (case CreateSurface_events mk sz p of
        (evs, Some surface, p1) \<Rightarrow>
          (case recreate_events mk sizes
                  (p1\<lparr>available_surfaces := available_surfaces p1 @ [surface]\<rparr>) of
             (evs1, q) \<Rightarrow> (evs @ evs1, q))
      | (evs, None, p1) \<Rightarrow>
          (case recreate_events mk sizes p1 of (evs1, q) \<Rightarrow> (evs @ evs1, q)))"

definition ShrinkToFit_events ::
  "surface_ctor \<Rightarrow> VulkanSurfacePool \<Rightarrow> event list \<times> VulkanSurfacePool" where
  "ShrinkToFit_events mk p =
     (case reset_oversized_events (available_surfaces p) of
        (evs, sizes_to_recreate, v) \<Rightarrow>
          (case recreate_events mk sizes_to_recreate
                  (p\<lparr>available_surfaces := remove_nullptr v\<rparr>) of
             (evs1, q) \<Rightarrow> (evs @ evs1, TraceStats q)))"

text \<open>The events of constructing one surface: it is destroyed at once when it is invalid.\<close>

definition construction_events :: "VulkanSurface \<Rightarrow> event list" where
  "construction_events surface =
     (if IsValid surface then [Constructed surface] else [Constructed surface, Destroyed surface])"

text \<open>The surfaces constructed in a sequence of events, in order.\<close>

fun constructions :: "event list \<Rightarrow> VulkanSurface list" where
  "constructions [] = []"
| "constructions (Constructed surface # evs) = surface # constructions evs"
| "constructions (Destroyed surface # evs) = constructions evs"

section \<open>Example data\<close>

definition size_A :: SkISize where
  "size_A = \<lparr>fWidth = 64, fHeight = 48\<rparr>"

definition size_B :: SkISize where
  "size_B = \<lparr>fWidth = 128, fHeight = 96\<rparr>"

text \<open>A constructor that always succeeds and one that always fails, for the examples.\<close>

definition mk_ok :: surface_ctor where
  "mk_ok sz n =
     \<lparr>ptr = 4096 + 256 * ucast n, buffer_id = n, GetSize = sz, IsValid = True, age = 0,
      IsOversized = False, HasStableSizeHistory = False, GetAllocationSize = 4096,
      FlushSessionAcquireAndReleaseEvents = True, on_writes_committed = None\<rparr>"

definition mk_fail :: surface_ctor where
  "mk_fail sz n = (mk_ok sz n)\<lparr>IsValid := False\<rparr>"

definition surface_A :: VulkanSurface where
  "surface_A = mk_ok size_A 1"

definition surface_B :: VulkanSurface where
  "surface_B = mk_ok size_B 2"

definition pool_of :: "VulkanSurface list \<Rightarrow> VulkanSurfacePool" where
  "pool_of v = initial_pool\<lparr>available_surfaces := v, next_buffer_id := 7\<rparr>"

definition pool_pending :: VulkanSurfacePool where
  "pool_pending = (pool_of [])\<lparr>pending_surfaces := [ptr surface_A \<mapsto> surface_A]\<rparr>"

definition surface_S :: VulkanSurface where
  "surface_S = (mk_ok size_A 7)\<lparr>ptr := 4096\<rparr>"

definition surface_stale :: VulkanSurface where
  "surface_stale = (mk_fail size_A 0)\<lparr>ptr := 8192\<rparr>"

definition surface_aged :: "nat \<Rightarrow> VulkanSurface" where
  "surface_aged n = surface_B\<lparr>age := n\<rparr>"

definition surface_over :: "32 word \<Rightarrow> VulkanSurface" where
  "surface_over n = (mk_ok size_A n)\<lparr>IsOversized := True, HasStableSizeHistory := True\<rparr>"

text \<open>The available surfaces as the filtering pass of \<^verbatim>\<open>AgeAndCollectOldBuffers\<close> leaves them.\<close>

abbreviation aged_surfaces :: "nat \<Rightarrow> VulkanSurfacePool \<Rightarrow> VulkanSurface list" where
  "aged_surfaces kMaxSurfaceAge p \<equiv> available_surfaces (collect_old kMaxSurfaceAge p)"

text \<open>
  The surfaces that the second loop of \<^verbatim>\<open>ShrinkToFit\<close> constructs for the recorded sizes,
  in order, when the first of them gets the identifier \<open>n\<close>.
\<close>

fun constructed :: "surface_ctor \<Rightarrow> 32 word \<Rightarrow> SkISize list \<Rightarrow> VulkanSurface list" where
  "constructed mk n [] = []"
| "constructed mk n (sz # sizes) = mk sz n # constructed mk (n + 1) sizes"

text \<open>The sizes that the first loop of \<^verbatim>\<open>ShrinkToFit\<close> records.\<close>

abbreviation oversized_sizes :: "VulkanSurfacePool \<Rightarrow> SkISize list" where
  "oversized_sizes p \<equiv> map GetSize (filter IsOversized (available_surfaces p))"

definition surface_big :: VulkanSurface where
  "surface_big = (mk_ok size_B 3)\<lparr>IsOversized := True, IsValid := False\<rparr>"

definition surface_A2 :: VulkanSurface where
  "surface_A2 = mk_ok size_A 4"

section \<open>Recycling\<close>

text \<open>
  C3. \<^verbatim>\<open>RecycleSurface\<close>: an invalid surface is dropped and the pool (the whole state) is as
  before; a valid surface is appended to the available surfaces when they are fewer than
  \<^verbatim>\<open>kMaxSurfaces\<close>; otherwise the recycled surface is the one dropped and the available
  surfaces are as before, the oldest included.
\<close>

theorem RecycleSurface_cases:
  "(\<not> IsValid surface \<longrightarrow> RecycleSurface kMaxSurfaces surface p = p) \<and>
   (IsValid surface \<and> length (available_surfaces p) < kMaxSurfaces \<longrightarrow>
      available_surfaces (RecycleSurface kMaxSurfaces surface p) = available_surfaces p @ [surface]) \<and>
   (IsValid surface \<and> \<not> length (available_surfaces p) < kMaxSurfaces \<longrightarrow>
      available_surfaces (RecycleSurface kMaxSurfaces surface p) = available_surfaces p)"
  by (simp add: RecycleSurface_def TraceStats_def)

theorem RecycleSurface_cases_witness:
  "\<not> IsValid (mk_fail size_A 3) \<and>
   RecycleSurface 2 (mk_fail size_A 3) (pool_of [surface_A]) = pool_of [surface_A] \<and>
   IsValid surface_B \<and> length (available_surfaces (pool_of [surface_A])) < 2 \<and>
   available_surfaces (RecycleSurface 2 surface_B (pool_of [surface_A])) = [surface_A, surface_B] \<and>
   \<not> length (available_surfaces (pool_of [surface_A, surface_A])) < 2 \<and>
   available_surfaces (RecycleSurface 2 surface_B (pool_of [surface_A, surface_A]))
     = [surface_A, surface_A]"
  using RecycleSurface_cases [of "mk_fail size_A 3" 2 "pool_of [surface_A]"]
    RecycleSurface_cases [of surface_B 2 "pool_of [surface_A]"]
    RecycleSurface_cases [of surface_B 2 "pool_of [surface_A, surface_A]"]
  by (simp add: mk_fail_def mk_ok_def surface_B_def pool_of_def)

section \<open>Facts about the iterators\<close>

lemma find_if_le: "find_if P xs \<le> length xs"
  by (induction xs) auto

lemma find_if_end_iff: "find_if P xs = length xs \<longleftrightarrow> (\<forall>x\<in>set xs. \<not> P x)"
proof (induction xs)
  case Nil
  show ?case by simp
next
  case (Cons x xs)
  have "find_if P xs \<le> length xs" by (rule find_if_le)
  with Cons show ?case by auto
qed

lemma find_if_nth: "find_if P xs \<noteq> length xs \<Longrightarrow> P (xs ! find_if P xs)"
  by (induction xs) (auto split: if_splits)

lemma find_if_least: "j < find_if P xs \<Longrightarrow> \<not> P (xs ! j)"
proof (induction xs arbitrary: j)
  case Nil
  then show ?case by simp
next
  case (Cons x xs)
  then show ?case by (cases j) (auto split: if_splits)
qed

lemma find_if_first:
  assumes "i < length xs" and "P (xs ! i)" and "\<forall>j<i. \<not> P (xs ! j)"
  shows "find_if P xs = i"
proof -
  have "\<not> i < find_if P xs" using find_if_least [of i P xs] assms(2) by blast
  moreover have "\<not> find_if P xs < i"
  proof
    assume lt: "find_if P xs < i"
    then have "find_if P xs \<noteq> length xs" using assms(1) by simp
    then have "P (xs ! find_if P xs)" by (rule find_if_nth)
    with lt assms(3) show False by blast
  qed
  ultimately show ?thesis by simp
qed

lemma length_erase: "i < length xs \<Longrightarrow> Suc (length (erase i xs)) = length xs"
  by (simp add: erase_def)

lemma pending_RecycleSurface [simp]:
  "pending_surfaces (RecycleSurface k surface p) = pending_surfaces p"
  by (simp add: RecycleSurface_def TraceStats_def)

text \<open>
  C8. \<^verbatim>\<open>RecyclePendingSurface\<close>: with no entry under the key the call changes nothing at
  all; with an entry, the entry is erased and exactly the surface it held goes to
  \<^verbatim>\<open>RecycleSurface\<close>. A second call with the same key therefore finds no entry: calling
  twice gives the state that calling once gives.
\<close>

theorem RecyclePendingSurface_once:
  "(pending_surfaces p surface_key = None \<longrightarrow>
      RecyclePendingSurface kMaxSurfaces surface_key p = p) \<and>
   (\<forall>surface. pending_surfaces p surface_key = Some surface \<longrightarrow>
      RecyclePendingSurface kMaxSurfaces surface_key p =
        RecycleSurface kMaxSurfaces surface
          (p\<lparr>pending_surfaces := (pending_surfaces p)(surface_key := None)\<rparr>) \<and>
      pending_surfaces (RecyclePendingSurface kMaxSurfaces surface_key p) =
        (pending_surfaces p)(surface_key := None)) \<and>
   RecyclePendingSurface kMaxSurfaces surface_key
       (RecyclePendingSurface kMaxSurfaces surface_key p) =
     RecyclePendingSurface kMaxSurfaces surface_key p"
proof (cases "pending_surfaces p surface_key")
  case None
  then show ?thesis by (simp add: RecyclePendingSurface_def)
next
  case (Some surface)
  let ?q = "RecycleSurface kMaxSurfaces surface
              (p\<lparr>pending_surfaces := (pending_surfaces p)(surface_key := None)\<rparr>)"
  have once: "RecyclePendingSurface kMaxSurfaces surface_key p = ?q"
    using Some by (simp add: RecyclePendingSurface_def)
  have gone: "pending_surfaces ?q surface_key = None" by simp
  have "RecyclePendingSurface kMaxSurfaces surface_key ?q = ?q"
    using gone by (simp add: RecyclePendingSurface_def)
  with once Some show ?thesis by simp
qed

theorem RecyclePendingSurface_once_witness:
  "pending_surfaces (pool_of []) 4352 = None \<and>
   RecyclePendingSurface 2 4352 (pool_of []) = pool_of [] \<and>
   pending_surfaces pool_pending 4352 = Some surface_A \<and>
   available_surfaces (RecyclePendingSurface 2 4352 pool_pending) = [surface_A] \<and>
   pending_surfaces (RecyclePendingSurface 2 4352 pool_pending) 4352 = None \<and>
   RecyclePendingSurface 2 4352 (RecyclePendingSurface 2 4352 pool_pending) =
     RecyclePendingSurface 2 4352 pool_pending"
proof -
  have none: "pending_surfaces (pool_of []) 4352 = None"
    by (simp add: pool_of_def initial_pool_def)
  have some: "pending_surfaces pool_pending 4352 = Some surface_A"
    by (simp add: pool_pending_def pool_of_def initial_pool_def surface_A_def mk_ok_def)
  have valid: "IsValid surface_A" by (simp add: surface_A_def mk_ok_def)
  have avail: "available_surfaces pool_pending = []"
    by (simp add: pool_pending_def pool_of_def)
  note r1 = RecyclePendingSurface_once [of "pool_of []" 4352 2]
  note r2 = RecyclePendingSurface_once [of pool_pending 4352 2]
  from r1 none have a: "RecyclePendingSurface 2 4352 (pool_of []) = pool_of []" by blast
  from r2 some have b: "RecyclePendingSurface 2 4352 pool_pending =
      RecycleSurface 2 surface_A
        (pool_pending\<lparr>pending_surfaces := (pending_surfaces pool_pending)(4352 := None)\<rparr>)"
    and c: "pending_surfaces (RecyclePendingSurface 2 4352 pool_pending) =
      (pending_surfaces pool_pending)(4352 := None)" by blast+
  from r2 have d: "RecyclePendingSurface 2 4352 (RecyclePendingSurface 2 4352 pool_pending) =
     RecyclePendingSurface 2 4352 pool_pending" by blast
  have e: "available_surfaces (RecyclePendingSurface 2 4352 pool_pending) = [surface_A]"
    unfolding b using valid avail by (simp add: RecycleSurface_def TraceStats_def)
  show ?thesis using none a some e c d by simp
qed

section \<open>Construction of the pool\<close>

text \<open>
  C10. The condition that the constructor asserts in a debug build is that connecting to
  the sysmem allocator did not return \<^verbatim>\<open>ZX_OK\<close>. So the assertion fails in every debug
  construction in which the connection succeeds, and holds when the connection fails, in
  which case the pool is constructed.
\<close>

theorem ctor_dcheck_requires_failure:
  "\<not> ctor_dcheck ZX_OK \<and>
   VulkanSurfacePool_ctor True ZX_OK = Inl DcheckFailed \<and>
   (status \<noteq> ZX_OK \<longrightarrow>
      ctor_dcheck status \<and> VulkanSurfacePool_ctor True status = Inr initial_pool)"
  by (simp add: ctor_dcheck_def VulkanSurfacePool_ctor_def)

theorem ctor_dcheck_requires_failure_witness:
  "(-1 :: 32 word) \<noteq> ZX_OK \<and> ctor_dcheck (-1) \<and>
   VulkanSurfacePool_ctor True (-1) = Inr initial_pool \<and>
   VulkanSurfacePool_ctor True 0 = Inl DcheckFailed"
  using ctor_dcheck_requires_failure [of "-1"] by (simp add: ZX_OK_def)

section \<open>Submitting\<close>

text \<open>
  C2 as stated fails: the key under which \<^verbatim>\<open>SubmitSurface\<close> stores a surface is not the
  identifier the surface was created with. A surface at address 4096 with identifier 7 is
  stored under 4096, and nothing is stored under 7.
\<close>

theorem SubmitSurface_key_is_not_identifier:
  "buffer_id surface_S = 7 \<and> ptr surface_S = 4096 \<and>
   pending_surfaces (SubmitSurface (Some surface_S) initial_pool) (ucast (buffer_id surface_S)) = None \<and>
   pending_surfaces (SubmitSurface (Some surface_S) initial_pool) (ptr surface_S) \<noteq> None"
  by (simp add: SubmitSurface_def surface_S_def mk_ok_def initial_pool_def Let_def)

text \<open>
  C2, amended. \<^verbatim>\<open>SubmitSurface\<close> ignores a null handle. Otherwise the key is the address
  of the surface object: when no entry has that key the surface is stored under it, with the
  completion callback (bound to the same key) registered on the stored surface, and nothing
  else changes; when an entry has that key the whole state is as before, so no callback is
  registered. Submitting the same surface twice gives the state that submitting it once
  gives.
\<close>

theorem SubmitSurface_keyed_by_address:
  "SubmitSurface None p = p \<and>
   (pending_surfaces p (ptr surface) = None \<longrightarrow>
      SubmitSurface (Some surface) p =
        p\<lparr>pending_surfaces := (pending_surfaces p)
             (ptr surface \<mapsto> surface\<lparr>on_writes_committed := Some (ptr surface)\<rparr>)\<rparr>) \<and>
   (pending_surfaces p (ptr surface) \<noteq> None \<longrightarrow> SubmitSurface (Some surface) p = p) \<and>
   SubmitSurface (Some surface) (SubmitSurface (Some surface) p) = SubmitSurface (Some surface) p"
  by (cases "pending_surfaces p (ptr surface)")
     (simp_all add: SubmitSurface_def SignalWritesFinished_def Let_def)

theorem SubmitSurface_keyed_by_address_witness:
  "pending_surfaces initial_pool (ptr surface_S) = None \<and>
   pending_surfaces (SubmitSurface (Some surface_S) initial_pool) 4096 =
     Some (surface_S\<lparr>on_writes_committed := Some 4096\<rparr>) \<and>
   pending_surfaces (SubmitSurface (Some surface_S) initial_pool) (ptr surface_S) \<noteq> None \<and>
   SubmitSurface (Some surface_S) (SubmitSurface (Some surface_S) initial_pool) =
     SubmitSurface (Some surface_S) initial_pool"
proof -
  let ?q = "SubmitSurface (Some surface_S) initial_pool"
  have k: "ptr surface_S = 4096" by (simp add: surface_S_def)
  have none: "pending_surfaces initial_pool (ptr surface_S) = None"
    by (simp add: initial_pool_def)
  have first: "?q = initial_pool\<lparr>pending_surfaces := (pending_surfaces initial_pool)
        (ptr surface_S \<mapsto> surface_S\<lparr>on_writes_committed := Some (ptr surface_S)\<rparr>)\<rparr>"
    using SubmitSurface_keyed_by_address [of initial_pool surface_S] none by blast
  have stored: "pending_surfaces ?q 4096 = Some (surface_S\<lparr>on_writes_committed := Some 4096\<rparr>)"
    unfolding first by (simp add: k)
  then have present: "pending_surfaces ?q (ptr surface_S) \<noteq> None" by (simp add: k)
  have "SubmitSurface (Some surface_S) ?q = ?q"
    using SubmitSurface_keyed_by_address [of ?q surface_S] present by blast
  with none stored present show ?thesis by simp
qed

section \<open>Creating and acquiring surfaces\<close>

lemma CreateSurface_valid:
  "IsValid (mk sz (next_buffer_id p)) \<Longrightarrow>
   CreateSurface mk sz p =
     (Some (mk sz (next_buffer_id p)),
      p\<lparr>next_buffer_id := next_buffer_id p + 1,
        trace_surfaces_created := trace_surfaces_created p + 1\<rparr>)"
  by (simp add: CreateSurface_def Let_def)

lemma CreateSurface_invalid:
  "\<not> IsValid (mk sz (next_buffer_id p)) \<Longrightarrow>
   CreateSurface mk sz p = (None, p\<lparr>next_buffer_id := next_buffer_id p + 1\<rparr>)"
  by (simp add: CreateSurface_def Let_def)

lemma CreateSurface_available [simp]:
  "available_surfaces (snd (CreateSurface mk sz p)) = available_surfaces p"
  by (simp add: CreateSurface_def Let_def)

lemma CreateSurface_Some_valid:
  "CreateSurface mk sz p = (Some surface, q) \<Longrightarrow> IsValid surface"
  by (auto simp: CreateSurface_def Let_def split: if_splits)

lemma GetCachedOrCreateSurface_hit:
  assumes "\<exists>x\<in>set (available_surfaces p). IsValid x \<and> GetSize x = sz"
  shows "GetCachedOrCreateSurface mk sz p =
     (Some (available_surfaces p !
              find_if (\<lambda>surface. IsValid surface \<and> GetSize surface = sz) (available_surfaces p)),
      p\<lparr>available_surfaces :=
          erase (find_if (\<lambda>surface. IsValid surface \<and> GetSize surface = sz) (available_surfaces p))
            (available_surfaces p)\<rparr>)"
proof -
  have "find_if (\<lambda>surface. IsValid surface \<and> GetSize surface = sz) (available_surfaces p)
          \<noteq> length (available_surfaces p)"
    using assms by (simp add: find_if_end_iff)
  then show ?thesis by (simp add: GetCachedOrCreateSurface_def Let_def)
qed

lemma GetCachedOrCreateSurface_miss:
  assumes "\<forall>x\<in>set (available_surfaces p). \<not> (IsValid x \<and> GetSize x = sz)"
  shows "GetCachedOrCreateSurface mk sz p = CreateSurface mk sz p"
proof -
  have "find_if (\<lambda>surface. IsValid surface \<and> GetSize surface = sz) (available_surfaces p)
          = length (available_surfaces p)"
    using assms by (simp add: find_if_end_iff)
  then show ?thesis by (simp add: GetCachedOrCreateSurface_def Let_def)
qed

lemma GetCachedOrCreateSurface_Some_valid:
  assumes "GetCachedOrCreateSurface mk sz p = (Some surface, q)"
  shows "IsValid surface"
proof (cases "\<exists>x\<in>set (available_surfaces p). IsValid x \<and> GetSize x = sz")
  case True
  let ?i = "find_if (\<lambda>surface. IsValid surface \<and> GetSize surface = sz) (available_surfaces p)"
  from True have "?i \<noteq> length (available_surfaces p)" by (simp add: find_if_end_iff)
  then have "IsValid (available_surfaces p ! ?i) \<and> GetSize (available_surfaces p ! ?i) = sz"
    by (rule find_if_nth)
  moreover have "surface = available_surfaces p ! ?i"
    using assms GetCachedOrCreateSurface_hit [OF True, of mk] by simp
  ultimately show ?thesis by simp
next
  case False
  then have "GetCachedOrCreateSurface mk sz p = CreateSurface mk sz p"
    by (intro GetCachedOrCreateSurface_miss) blast
  with assms show ?thesis by (auto dest: CreateSurface_Some_valid)
qed

lemma AcquireSurface_snd [simp]:
  "snd (AcquireSurface mk sz p) = snd (GetCachedOrCreateSurface mk sz p)"
  by (simp add: AcquireSurface_def split: prod.splits option.splits)

text \<open>
  C1. Acquiring scans the available surfaces in order, in \<^verbatim>\<open>GetCachedOrCreateSurface\<close>. If
  the surface at position \<open>i\<close> is the first that is valid and of exactly the requested size,
  it is removed from the pool and returned, every other entry staying in place and nothing
  else in the state changing. If no available surface is valid and of the requested size,
  the result is that of \<^verbatim>\<open>CreateSurface\<close> and the available surfaces are as before.
  \<^verbatim>\<open>AcquireSurface\<close> leaves the pool as this step leaves it and hands on the surface the step
  returns, provided the flush of its acquire and release events succeeds. A surface that
  either function returns is valid.
\<close>

theorem GetCachedOrCreateSurface_first_match_or_create:
  "(\<forall>i. i < length (available_surfaces p) \<and>
        IsValid (available_surfaces p ! i) \<and> GetSize (available_surfaces p ! i) = sz \<and>
        (\<forall>j<i. \<not> (IsValid (available_surfaces p ! j) \<and> GetSize (available_surfaces p ! j) = sz))
      \<longrightarrow>
        GetCachedOrCreateSurface mk sz p =
          (Some (available_surfaces p ! i),
           p\<lparr>available_surfaces := take i (available_surfaces p) @ drop (Suc i) (available_surfaces p)\<rparr>)) \<and>
   ((\<forall>x\<in>set (available_surfaces p). \<not> (IsValid x \<and> GetSize x = sz)) \<longrightarrow>
      GetCachedOrCreateSurface mk sz p = CreateSurface mk sz p \<and>
      available_surfaces (snd (GetCachedOrCreateSurface mk sz p)) = available_surfaces p) \<and>
   snd (AcquireSurface mk sz p) = snd (GetCachedOrCreateSurface mk sz p) \<and>
   fst (AcquireSurface mk sz p) =
     (case fst (GetCachedOrCreateSurface mk sz p) of
        None \<Rightarrow> None
      | Some surface \<Rightarrow>
          if FlushSessionAcquireAndReleaseEvents surface then Some surface else None) \<and>
   (\<forall>surface q. GetCachedOrCreateSurface mk sz p = (Some surface, q) \<longrightarrow> IsValid surface) \<and>
   (\<forall>surface q. AcquireSurface mk sz p = (Some surface, q) \<longrightarrow> IsValid surface)"
proof (intro conjI allI impI)
  fix i
  let ?v = "available_surfaces p"
  let ?P = "\<lambda>surface. IsValid surface \<and> GetSize surface = sz"
  assume a: "i < length ?v \<and> IsValid (?v ! i) \<and> GetSize (?v ! i) = sz \<and>
             (\<forall>j<i. \<not> (IsValid (?v ! j) \<and> GetSize (?v ! j) = sz))"
  then have i: "find_if ?P ?v = i" by (intro find_if_first) simp_all
  from a have "?v ! i \<in> set ?v" by simp
  with a have hit: "\<exists>x\<in>set ?v. IsValid x \<and> GetSize x = sz" by blast
  show "GetCachedOrCreateSurface mk sz p =
      (Some (?v ! i), p\<lparr>available_surfaces := take i ?v @ drop (Suc i) ?v\<rparr>)"
    using GetCachedOrCreateSurface_hit [OF hit, of mk] by (simp add: i erase_def)
next
  assume miss: "\<forall>x\<in>set (available_surfaces p). \<not> (IsValid x \<and> GetSize x = sz)"
  show g: "GetCachedOrCreateSurface mk sz p = CreateSurface mk sz p"
    using miss by (rule GetCachedOrCreateSurface_miss)
  show "available_surfaces (snd (GetCachedOrCreateSurface mk sz p)) = available_surfaces p"
    by (simp add: g)
next
  show "snd (AcquireSurface mk sz p) = snd (GetCachedOrCreateSurface mk sz p)"
    by (rule AcquireSurface_snd)
  show "fst (AcquireSurface mk sz p) =
     (case fst (GetCachedOrCreateSurface mk sz p) of
        None \<Rightarrow> None
      | Some surface \<Rightarrow>
          if FlushSessionAcquireAndReleaseEvents surface then Some surface else None)"
    by (simp add: AcquireSurface_def split: prod.splits option.splits)
next
  fix surface q
  assume "GetCachedOrCreateSurface mk sz p = (Some surface, q)"
  then show "IsValid surface" by (rule GetCachedOrCreateSurface_Some_valid)
next
  fix surface q
  assume r: "AcquireSurface mk sz p = (Some surface, q)"
  then have "GetCachedOrCreateSurface mk sz p = (Some surface, q)"
    by (auto simp: AcquireSurface_def split: prod.splits option.splits if_splits)
  then show "IsValid surface" by (rule GetCachedOrCreateSurface_Some_valid)
qed

theorem GetCachedOrCreateSurface_first_match_or_create_witness:
  "GetCachedOrCreateSurface mk_ok size_A (pool_of [surface_B, surface_stale, surface_A, surface_A2])
     = (Some surface_A, pool_of [surface_B, surface_stale, surface_A2]) \<and>
   AcquireSurface mk_ok size_A (pool_of [surface_B, surface_stale, surface_A, surface_A2])
     = (Some surface_A, pool_of [surface_B, surface_stale, surface_A2]) \<and>
   GetCachedOrCreateSurface mk_ok size_A (pool_of [surface_B, surface_stale])
     = (Some (mk_ok size_A 7),
        (pool_of [surface_B, surface_stale])\<lparr>next_buffer_id := 8, trace_surfaces_created := 1\<rparr>) \<and>
   available_surfaces (snd (GetCachedOrCreateSurface mk_ok size_A (pool_of [surface_B, surface_stale])))
     = [surface_B, surface_stale] \<and>
   IsValid surface_A \<and> IsValid (mk_ok size_A 7)"
proof -
  let ?v = "[surface_B, surface_stale, surface_A, surface_A2]"
  let ?p = "pool_of ?v"
  let ?q = "pool_of [surface_B, surface_stale]"
  have facts:
    "GetSize surface_B \<noteq> size_A" "\<not> IsValid surface_stale" "IsValid surface_A"
    "GetSize surface_A = size_A" "FlushSessionAcquireAndReleaseEvents surface_A"
    by (simp_all add: surface_A_def surface_B_def surface_stale_def mk_fail_def mk_ok_def
        size_A_def size_B_def)
  have av: "available_surfaces (pool_of xs) = xs" for xs by (simp add: pool_of_def)
  have upd: "(pool_of xs)\<lparr>available_surfaces := ys\<rparr> = pool_of ys" for xs ys
    by (simp add: pool_of_def)
  have before: "\<not> (IsValid (?v ! j) \<and> GetSize (?v ! j) = size_A)" if "j < 2" for j
  proof -
    from that have "j = 0 \<or> j = 1" by arith
    then show ?thesis using facts by auto
  qed
  have pre: "2 < length (available_surfaces ?p) \<and>
        IsValid (available_surfaces ?p ! 2) \<and> GetSize (available_surfaces ?p ! 2) = size_A \<and>
        (\<forall>j<2. \<not> (IsValid (available_surfaces ?p ! j) \<and> GetSize (available_surfaces ?p ! j) = size_A))"
    unfolding av using facts before by simp
  note T = GetCachedOrCreateSurface_first_match_or_create [of ?p size_A mk_ok]
  note U = GetCachedOrCreateSurface_first_match_or_create [of ?q size_A mk_ok]
  have "GetCachedOrCreateSurface mk_ok size_A ?p =
      (Some (available_surfaces ?p ! 2),
       ?p\<lparr>available_surfaces := take 2 (available_surfaces ?p) @ drop (Suc 2) (available_surfaces ?p)\<rparr>)"
    using T pre by blast
  then have one: "GetCachedOrCreateSurface mk_ok size_A ?p =
      (Some surface_A, pool_of [surface_B, surface_stale, surface_A2])"
    unfolding av upd by simp
  have s: "snd (AcquireSurface mk_ok size_A ?p) = snd (GetCachedOrCreateSurface mk_ok size_A ?p)"
    using T by blast
  have f: "fst (AcquireSurface mk_ok size_A ?p) =
     (case fst (GetCachedOrCreateSurface mk_ok size_A ?p) of
        None \<Rightarrow> None
      | Some surface \<Rightarrow>
          if FlushSessionAcquireAndReleaseEvents surface then Some surface else None)"
    using T by blast
  have acq: "AcquireSurface mk_ok size_A ?p =
      (Some surface_A, pool_of [surface_B, surface_stale, surface_A2])"
    using s f by (simp add: one facts prod_eq_iff)
  have miss: "\<forall>x\<in>set (available_surfaces ?q). \<not> (IsValid x \<and> GetSize x = size_A)"
    unfolding av using facts by simp
  have nid: "next_buffer_id ?q = 7" by (simp add: pool_of_def)
  have cr: "CreateSurface mk_ok size_A ?q =
      (Some (mk_ok size_A 7), ?q\<lparr>next_buffer_id := 8, trace_surfaces_created := 1\<rparr>)"
    by (simp add: CreateSurface_def Let_def nid) (simp add: mk_ok_def pool_of_def initial_pool_def)
  have "GetCachedOrCreateSurface mk_ok size_A ?q = CreateSurface mk_ok size_A ?q"
    using U miss by blast
  then have two: "GetCachedOrCreateSurface mk_ok size_A ?q =
      (Some (mk_ok size_A 7), ?q\<lparr>next_buffer_id := 8, trace_surfaces_created := 1\<rparr>)"
    by (simp add: cr)
  have "available_surfaces (snd (GetCachedOrCreateSurface mk_ok size_A ?q)) = available_surfaces ?q"
    using U miss by blast
  then have three: "available_surfaces (snd (GetCachedOrCreateSurface mk_ok size_A ?q)) =
      [surface_B, surface_stale]"
    by (simp add: av)
  have v1: "IsValid surface_A" using T one by blast
  have v2: "IsValid (mk_ok size_A 7)" using U two by blast
  from one acq two three v1 v2 show ?thesis by simp
qed

section \<open>Aging and collecting old surfaces\<close>

lemma remove_if_map_filter:
  "remove_if pred xs = map (\<lambda>x. snd (pred x)) (filter (\<lambda>x. \<not> fst (pred x)) xs)"
proof (induction xs)
  case Nil
  show ?case by simp
next
  case (Cons x xs)
  then show ?case by (cases "pred x") (auto split: bool.splits)
qed

lemma length_remove_if: "length (remove_if pred xs) \<le> length xs"
  by (simp add: remove_if_map_filter)

lemma invalid_or_too_old_eq:
  "invalid_or_too_old k surface =
     (\<not> IsValid surface \<or> k \<le> age surface + 1,
      if IsValid surface then surface\<lparr>age := age surface + 1\<rparr> else surface)"
  by (simp add: invalid_or_too_old_def AdvanceAndGetAge_def)

text \<open>
  C5 as stated fails: the age of an invalid surface is not advanced. The removal predicate
  returns for it before \<^verbatim>\<open>AdvanceAndGetAge\<close> is reached, so the surface is removed with the
  age it had.
\<close>

theorem invalid_surface_is_not_aged:
  "\<not> IsValid surface_stale \<and> age surface_stale = 0 \<and>
   invalid_or_too_old 3 surface_stale = (True, surface_stale) \<and>
   age (snd (invalid_or_too_old 3 surface_stale)) \<noteq> age surface_stale + 1 \<and>
   available_surfaces (collect_old 3 (pool_of [surface_stale])) = []"
  by (simp add: invalid_or_too_old_def collect_old_def pool_of_def surface_stale_def
      mk_fail_def mk_ok_def)

text \<open>
  C5, amended. In the filtering pass of \<^verbatim>\<open>AgeAndCollectOldBuffers\<close>, for every surface
  available at the start: the predicate advances the age of a valid surface by exactly one
  and leaves an invalid surface as it is; it removes the surface if and only if the surface
  is invalid or its advanced age is at least \<^verbatim>\<open>kMaxSurfaceAge\<close>. The pass keeps, in order,
  exactly the valid surfaces whose advanced age is below the threshold, each with its age
  incremented by exactly one, and changes nothing else in the pool.
\<close>

theorem collect_old_ages_and_filters:
  "collect_old kMaxSurfaceAge p =
     p\<lparr>available_surfaces :=
         map (\<lambda>surface. surface\<lparr>age := age surface + 1\<rparr>)
           (filter (\<lambda>surface. IsValid surface \<and> age surface + 1 < kMaxSurfaceAge)
              (available_surfaces p))\<rparr> \<and>
   (\<forall>surface\<in>set (available_surfaces p).
      fst (invalid_or_too_old kMaxSurfaceAge surface) =
        (\<not> IsValid surface \<or> kMaxSurfaceAge \<le> age surface + 1) \<and>
      snd (invalid_or_too_old kMaxSurfaceAge surface) =
        (if IsValid surface then surface\<lparr>age := age surface + 1\<rparr> else surface))"
proof -
  have "remove_if (invalid_or_too_old kMaxSurfaceAge) (available_surfaces p) =
      map (\<lambda>surface. surface\<lparr>age := age surface + 1\<rparr>)
        (filter (\<lambda>surface. IsValid surface \<and> age surface + 1 < kMaxSurfaceAge)
           (available_surfaces p))"
    unfolding remove_if_map_filter invalid_or_too_old_eq
    by (induction "available_surfaces p") (auto simp: not_le)
  then show ?thesis by (simp add: collect_old_def invalid_or_too_old_eq)
qed

theorem collect_old_ages_and_filters_witness:
  "available_surfaces
     (collect_old 3 (pool_of [surface_aged 0, surface_stale, surface_aged 2, surface_aged 1]))
     = [surface_aged 1, surface_aged 2] \<and>
   invalid_or_too_old 3 (surface_aged 2) = (True, surface_aged 3) \<and>
   invalid_or_too_old 3 (surface_aged 1) = (False, surface_aged 2) \<and>
   invalid_or_too_old 3 surface_stale = (True, surface_stale)"
proof -
  let ?v = "[surface_aged 0, surface_stale, surface_aged 2, surface_aged 1]"
  have av: "available_surfaces (pool_of xs) = xs" for xs by (simp add: pool_of_def)
  have facts: "IsValid (surface_aged n)" "age (surface_aged n) = n" "\<not> IsValid surface_stale"
    "(surface_aged n)\<lparr>age := m\<rparr> = surface_aged m" for n m
    by (simp_all add: surface_aged_def surface_B_def surface_stale_def mk_fail_def mk_ok_def)
  note T = collect_old_ages_and_filters [of 3 "pool_of ?v"]
  from T have a: "available_surfaces (collect_old 3 (pool_of ?v)) = [surface_aged 1, surface_aged 2]"
    by (simp add: av facts numeral_2_eq_2)
  note B = conjunct2 [OF T]
  have m2: "surface_aged 2 \<in> set (available_surfaces (pool_of ?v))" by (simp add: av)
  have m1: "surface_aged 1 \<in> set (available_surfaces (pool_of ?v))" by (simp add: av)
  have ms: "surface_stale \<in> set (available_surfaces (pool_of ?v))" by (simp add: av)
  have b: "invalid_or_too_old 3 (surface_aged 2) = (True, surface_aged 3)"
    using bspec [OF B m2] by (simp add: facts prod_eq_iff)
  have c: "invalid_or_too_old 3 (surface_aged 1) = (False, surface_aged 2)"
    using bspec [OF B m1] by (simp add: facts prod_eq_iff numeral_2_eq_2)
  have d: "invalid_or_too_old 3 surface_stale = (True, surface_stale)"
    using bspec [OF B ms] by (simp add: facts prod_eq_iff)
  from a b c d show ?thesis by simp
qed

lemma replace_oversized_none:
  assumes "\<forall>x\<in>set (available_surfaces p). \<not> (IsOversized x \<and> HasStableSizeHistory x)"
  shows "replace_oversized mk p = p"
proof -
  have "find_if (\<lambda>surface. IsOversized surface \<and> HasStableSizeHistory surface)
          (available_surfaces p) = length (available_surfaces p)"
    using assms by (simp add: find_if_end_iff)
  then show ?thesis by (simp add: replace_oversized_def Let_def)
qed

lemma replace_oversized_at:
  assumes "find_if (\<lambda>surface. IsOversized surface \<and> HasStableSizeHistory surface)
             (available_surfaces p) = i"
    and "i \<noteq> length (available_surfaces p)"
  shows "replace_oversized mk p =
     p\<lparr>available_surfaces :=
         erase i (available_surfaces p) @
           (if IsValid (mk (GetSize (available_surfaces p ! i)) (next_buffer_id p))
            then [mk (GetSize (available_surfaces p ! i)) (next_buffer_id p)] else []),
       next_buffer_id := next_buffer_id p + 1,
       trace_surfaces_created :=
         (if IsValid (mk (GetSize (available_surfaces p ! i)) (next_buffer_id p))
          then trace_surfaces_created p + 1 else trace_surfaces_created p)\<rparr>"
  using assms by (simp add: replace_oversized_def CreateSurface_def Let_def)

lemma length_replace_oversized:
  "length (available_surfaces (replace_oversized mk p)) \<le> length (available_surfaces p)"
proof (cases "find_if (\<lambda>surface. IsOversized surface \<and> HasStableSizeHistory surface)
          (available_surfaces p) = length (available_surfaces p)")
  case True
  then show ?thesis by (simp add: replace_oversized_def Let_def)
next
  case False
  let ?i = "find_if (\<lambda>surface. IsOversized surface \<and> HasStableSizeHistory surface)
          (available_surfaces p)"
  have "?i \<le> length (available_surfaces p)" by (rule find_if_le)
  with False have "?i < length (available_surfaces p)" by simp
  then have "Suc (length (erase ?i (available_surfaces p))) = length (available_surfaces p)"
    by (rule length_erase)
  then show ?thesis using False by (simp add: replace_oversized_at [OF refl False])
qed

lemma TraceStats_created_update [simp]:
  "TraceStats (p\<lparr>trace_surfaces_created := c\<rparr>) = TraceStats p"
  by (simp add: TraceStats_def)

lemma next_buffer_id_collect_old [simp]:
  "next_buffer_id (collect_old k p) = next_buffer_id p"
  by (simp add: collect_old_def)

text \<open>
  C6. After the filtering pass, whose result is \<open>aged_surfaces\<close>, \<^verbatim>\<open>AgeAndCollectOldBuffers\<close>
  replaces at most one surface and then reports the statistics. When no remaining surface
  is both oversized and of stable size history, nothing is replaced and no surface is
  constructed. Otherwise the first such surface, at position \<open>i\<close>, is removed and every
  other surface stays, those that also qualify included; one surface of the same size is
  constructed with the next identifier; when it is valid it is appended to the pool, and
  when it is not the pool is one surface smaller. Exactly one identifier is consumed, so
  there is no second attempt.
\<close>

theorem AgeAndCollectOldBuffers_replaces_at_most_one:
  "((\<forall>x\<in>set (aged_surfaces k p). \<not> (IsOversized x \<and> HasStableSizeHistory x)) \<longrightarrow>
      AgeAndCollectOldBuffers mk k p = TraceStats (collect_old k p)) \<and>
   (\<forall>i. i < length (aged_surfaces k p) \<and>
        IsOversized (aged_surfaces k p ! i) \<and> HasStableSizeHistory (aged_surfaces k p ! i) \<and>
        (\<forall>j<i. \<not> (IsOversized (aged_surfaces k p ! j) \<and>
                   HasStableSizeHistory (aged_surfaces k p ! j)))
      \<longrightarrow>
        AgeAndCollectOldBuffers mk k p =
          TraceStats
            (p\<lparr>available_surfaces :=
                take i (aged_surfaces k p) @ drop (Suc i) (aged_surfaces k p) @
                  (if IsValid (mk (GetSize (aged_surfaces k p ! i)) (next_buffer_id p))
                   then [mk (GetSize (aged_surfaces k p ! i)) (next_buffer_id p)] else []),
               next_buffer_id := next_buffer_id p + 1\<rparr>))"
proof (intro conjI allI impI)
  assume "\<forall>x\<in>set (aged_surfaces k p). \<not> (IsOversized x \<and> HasStableSizeHistory x)"
  then have "replace_oversized mk (collect_old k p) = collect_old k p"
    by (rule replace_oversized_none)
  then show "AgeAndCollectOldBuffers mk k p = TraceStats (collect_old k p)"
    by (simp add: AgeAndCollectOldBuffers_def)
next
  fix i
  let ?v = "aged_surfaces k p"
  assume a: "i < length ?v \<and> IsOversized (?v ! i) \<and> HasStableSizeHistory (?v ! i) \<and>
        (\<forall>j<i. \<not> (IsOversized (?v ! j) \<and> HasStableSizeHistory (?v ! j)))"
  then have i: "find_if (\<lambda>surface. IsOversized surface \<and> HasStableSizeHistory surface) ?v = i"
    by (intro find_if_first) simp_all
  from a have ne: "i \<noteq> length ?v" by simp
  have q: "(collect_old k p)\<lparr>available_surfaces := xs, next_buffer_id := n\<rparr> =
      p\<lparr>available_surfaces := xs, next_buffer_id := n\<rparr>" for xs n
    by (simp add: collect_old_def)
  show "AgeAndCollectOldBuffers mk k p =
          TraceStats
            (p\<lparr>available_surfaces :=
                take i ?v @ drop (Suc i) ?v @
                  (if IsValid (mk (GetSize (?v ! i)) (next_buffer_id p))
                   then [mk (GetSize (?v ! i)) (next_buffer_id p)] else []),
               next_buffer_id := next_buffer_id p + 1\<rparr>)"
    unfolding AgeAndCollectOldBuffers_def replace_oversized_at [OF i ne]
    by (simp add: erase_def q)
qed

theorem AgeAndCollectOldBuffers_replaces_at_most_one_witness:
  "available_surfaces
     (AgeAndCollectOldBuffers mk_ok 3 (pool_of [surface_B, surface_over 1, surface_stale, surface_over 2]))
     = [surface_aged 1, (surface_over 2)\<lparr>age := 1\<rparr>, mk_ok size_A 7] \<and>
   available_surfaces
     (AgeAndCollectOldBuffers mk_fail 3 (pool_of [surface_B, surface_over 1, surface_stale, surface_over 2]))
     = [surface_aged 1, (surface_over 2)\<lparr>age := 1\<rparr>] \<and>
   next_buffer_id
     (AgeAndCollectOldBuffers mk_fail 3 (pool_of [surface_B, surface_over 1, surface_stale, surface_over 2]))
     = 8 \<and>
   AgeAndCollectOldBuffers mk_ok 3 (pool_of [surface_B, surface_stale]) = pool_of [surface_aged 1]"
proof -
  let ?p = "pool_of [surface_B, surface_over 1, surface_stale, surface_over 2]"
  let ?v = "[surface_aged 1, (surface_over 1)\<lparr>age := 1\<rparr>, (surface_over 2)\<lparr>age := 1\<rparr>]"
  have nid: "next_buffer_id (pool_of xs) = 7" for xs by (simp add: pool_of_def)
  have facts: "\<not> IsOversized (surface_aged m)" "IsValid (mk_ok sz n)" "\<not> IsValid (mk_fail sz n)"
    "IsOversized ((surface_over n)\<lparr>age := m\<rparr>)" "HasStableSizeHistory ((surface_over n)\<lparr>age := m\<rparr>)"
    "GetSize ((surface_over n)\<lparr>age := m\<rparr>) = size_A" for n m sz
    by (simp_all add: surface_aged_def surface_B_def surface_over_def mk_ok_def mk_fail_def)
  have v: "aged_surfaces 3 ?p = ?v"
    by (simp add: collect_old_def pool_of_def remove_if_map_filter invalid_or_too_old_eq
          surface_aged_def surface_B_def surface_over_def surface_stale_def mk_ok_def mk_fail_def)
  have pre: "1 < length (aged_surfaces 3 ?p) \<and>
        IsOversized (aged_surfaces 3 ?p ! 1) \<and> HasStableSizeHistory (aged_surfaces 3 ?p ! 1) \<and>
        (\<forall>j<1. \<not> (IsOversized (aged_surfaces 3 ?p ! j) \<and>
                   HasStableSizeHistory (aged_surfaces 3 ?p ! j)))"
    unfolding v using facts by simp
  have ok: "AgeAndCollectOldBuffers mk_ok 3 ?p =
      TraceStats
        (?p\<lparr>available_surfaces :=
            take 1 (aged_surfaces 3 ?p) @ drop (Suc 1) (aged_surfaces 3 ?p) @
              (if IsValid (mk_ok (GetSize (aged_surfaces 3 ?p ! 1)) (next_buffer_id ?p))
               then [mk_ok (GetSize (aged_surfaces 3 ?p ! 1)) (next_buffer_id ?p)] else []),
           next_buffer_id := next_buffer_id ?p + 1\<rparr>)"
    using AgeAndCollectOldBuffers_replaces_at_most_one [of 3 ?p mk_ok] pre by blast
  have bad: "AgeAndCollectOldBuffers mk_fail 3 ?p =
      TraceStats
        (?p\<lparr>available_surfaces :=
            take 1 (aged_surfaces 3 ?p) @ drop (Suc 1) (aged_surfaces 3 ?p) @
              (if IsValid (mk_fail (GetSize (aged_surfaces 3 ?p ! 1)) (next_buffer_id ?p))
               then [mk_fail (GetSize (aged_surfaces 3 ?p ! 1)) (next_buffer_id ?p)] else []),
           next_buffer_id := next_buffer_id ?p + 1\<rparr>)"
    using AgeAndCollectOldBuffers_replaces_at_most_one [of 3 ?p mk_fail] pre by blast
  have a: "available_surfaces (AgeAndCollectOldBuffers mk_ok 3 ?p)
      = [surface_aged 1, (surface_over 2)\<lparr>age := 1\<rparr>, mk_ok size_A 7]"
    unfolding ok v by (simp add: TraceStats_def nid facts)
  have b: "available_surfaces (AgeAndCollectOldBuffers mk_fail 3 ?p)
      = [surface_aged 1, (surface_over 2)\<lparr>age := 1\<rparr>]"
    unfolding bad v by (simp add: TraceStats_def nid facts)
  have c: "next_buffer_id (AgeAndCollectOldBuffers mk_fail 3 ?p) = 8"
    unfolding bad by (simp add: TraceStats_def nid)
  have w: "aged_surfaces 3 (pool_of [surface_B, surface_stale]) = [surface_aged 1]"
    by (simp add: collect_old_def pool_of_def remove_if_map_filter invalid_or_too_old_eq
          surface_aged_def surface_B_def surface_stale_def mk_ok_def mk_fail_def)
  have none: "\<forall>x\<in>set (aged_surfaces 3 (pool_of [surface_B, surface_stale])).
      \<not> (IsOversized x \<and> HasStableSizeHistory x)"
    unfolding w using facts by simp
  have "AgeAndCollectOldBuffers mk_ok 3 (pool_of [surface_B, surface_stale]) =
      TraceStats (collect_old 3 (pool_of [surface_B, surface_stale]))"
    using AgeAndCollectOldBuffers_replaces_at_most_one [of 3 "pool_of [surface_B, surface_stale]" mk_ok]
      none by blast
  also have "\<dots> = pool_of [surface_aged 1]"
    using w by (simp add: collect_old_def TraceStats_def pool_of_def initial_pool_def)
  finally have d: "AgeAndCollectOldBuffers mk_ok 3 (pool_of [surface_B, surface_stale]) =
      pool_of [surface_aged 1]" .
  from a b c d show ?thesis by simp
qed

section \<open>Shrinking the pool to fit\<close>

lemma reset_oversized_eq:
  "reset_oversized v =
     (map GetSize (filter IsOversized v),
      map (\<lambda>surface. if IsOversized surface then None else Some surface) v)"
  by (induction v) auto

lemma remove_nullptr_reset:
  "remove_nullptr (map (\<lambda>surface. if IsOversized surface then None else Some surface) v) =
     filter (\<lambda>surface. \<not> IsOversized surface) v"
  by (induction v) auto

lemma length_constructed [simp]: "length (constructed mk n sizes) = length sizes"
  by (induction sizes arbitrary: n) auto

lemma available_recreate:
  "available_surfaces (recreate mk sizes p) =
     available_surfaces p @ filter IsValid (constructed mk (next_buffer_id p) sizes)"
proof (induction sizes arbitrary: p)
  case Nil
  show ?case by simp
next
  case (Cons sz sizes)
  show ?case
  proof (cases "IsValid (mk sz (next_buffer_id p))")
    case True
    then show ?thesis by (simp add: CreateSurface_valid Cons.IH)
  next
    case False
    then show ?thesis by (simp add: CreateSurface_invalid Cons.IH)
  qed
qed

lemma next_buffer_id_recreate:
  "next_buffer_id (recreate mk sizes p) = next_buffer_id p + of_nat (length sizes)"
proof (induction sizes arbitrary: p)
  case Nil
  show ?case by simp
next
  case (Cons sz sizes)
  show ?case
  proof (cases "IsValid (mk sz (next_buffer_id p))")
    case True
    then show ?thesis by (simp add: CreateSurface_valid Cons.IH)
  next
    case False
    then show ?thesis by (simp add: CreateSurface_invalid Cons.IH)
  qed
qed

lemma ShrinkToFit_eq:
  "ShrinkToFit mk p =
     TraceStats (recreate mk (oversized_sizes p)
       (p\<lparr>available_surfaces := filter (\<lambda>surface. \<not> IsOversized surface) (available_surfaces p)\<rparr>))"
  by (simp add: ShrinkToFit_def reset_oversized_eq remove_nullptr_reset)

lemma available_ShrinkToFit:
  "available_surfaces (ShrinkToFit mk p) =
     filter (\<lambda>surface. \<not> IsOversized surface) (available_surfaces p) @
     filter IsValid (constructed mk (next_buffer_id p) (oversized_sizes p))"
  by (simp add: ShrinkToFit_eq TraceStats_def available_recreate)

lemma length_filter_split:
  "length (filter (\<lambda>x. \<not> P x) xs) + length (filter P xs) = length xs"
  by (induction xs) auto

lemma mset_filter_split:
  "mset (map f (filter (\<lambda>x. \<not> P x) xs)) + mset (map f (filter P xs)) = mset (map f xs)"
  by (induction xs) auto

lemma CreateSurface_events_eq:
  "CreateSurface_events mk sz p =
     (construction_events (mk sz (next_buffer_id p)), CreateSurface mk sz p)"
  by (simp add: CreateSurface_events_def CreateSurface_def construction_events_def Let_def)

lemma reset_oversized_events_eq:
  "reset_oversized_events v = (map Destroyed (filter IsOversized v), reset_oversized v)"
  by (induction v) (auto split: prod.splits)

lemma recreate_events_eq:
  "recreate_events mk sizes p =
     (concat (map construction_events (constructed mk (next_buffer_id p) sizes)),
      recreate mk sizes p)"
proof (induction sizes arbitrary: p)
  case Nil
  show ?case by simp
next
  case (Cons sz sizes)
  show ?case
  proof (cases "IsValid (mk sz (next_buffer_id p))")
    case True
    then show ?thesis
      by (simp add: CreateSurface_events_eq CreateSurface_valid Cons.IH)
  next
    case False
    then show ?thesis
      by (simp add: CreateSurface_events_eq CreateSurface_invalid Cons.IH)
  qed
qed

lemma ShrinkToFit_events_eq:
  "ShrinkToFit_events mk p =
     (map Destroyed (filter IsOversized (available_surfaces p)) @
        concat (map construction_events (constructed mk (next_buffer_id p) (oversized_sizes p))),
      ShrinkToFit mk p)"
  by (simp add: ShrinkToFit_events_def ShrinkToFit_def reset_oversized_events_eq
      reset_oversized_eq recreate_events_eq)

lemma constructions_Destroyed [simp]: "constructions (map Destroyed xs @ evs) = constructions evs"
  by (induction xs) auto

lemma constructions_construction_events [simp]:
  "constructions (concat (map construction_events xs)) = xs"
  by (induction xs) (auto simp: construction_events_def)

lemma ShrinkToFit_final_state:
  "reset_oversized (available_surfaces p) =
     (oversized_sizes p,
      map (\<lambda>surface. if IsOversized surface then None else Some surface) (available_surfaces p)) \<and>
   ShrinkToFit mk p =
     TraceStats (recreate mk (oversized_sizes p)
       (p\<lparr>available_surfaces := filter (\<lambda>surface. \<not> IsOversized surface) (available_surfaces p)\<rparr>)) \<and>
   available_surfaces (ShrinkToFit mk p) =
     filter (\<lambda>surface. \<not> IsOversized surface) (available_surfaces p) @
     filter IsValid (constructed mk (next_buffer_id p) (oversized_sizes p)) \<and>
   length (constructed mk (next_buffer_id p) (oversized_sizes p)) =
     length (filter IsOversized (available_surfaces p)) \<and>
   next_buffer_id (ShrinkToFit mk p) =
     next_buffer_id p + of_nat (length (filter IsOversized (available_surfaces p))) \<and>
   length (available_surfaces (ShrinkToFit mk p)) +
     length (filter (\<lambda>surface. \<not> IsValid surface)
               (constructed mk (next_buffer_id p) (oversized_sizes p))) =
     length (available_surfaces p) \<and>
   ((\<forall>surface\<in>set (constructed mk (next_buffer_id p) (oversized_sizes p)). IsValid surface) \<longrightarrow>
      length (available_surfaces (ShrinkToFit mk p)) = length (available_surfaces p) \<and>
      (map GetSize (constructed mk (next_buffer_id p) (oversized_sizes p)) = oversized_sizes p \<longrightarrow>
         mset (map GetSize (available_surfaces (ShrinkToFit mk p))) =
           mset (map GetSize (available_surfaces p))))"
proof (intro conjI impI)
  let ?v = "available_surfaces p"
  let ?c = "constructed mk (next_buffer_id p) (oversized_sizes p)"
  let ?keep = "filter (\<lambda>surface. \<not> IsOversized surface) ?v"
  show "reset_oversized ?v =
     (oversized_sizes p, map (\<lambda>surface. if IsOversized surface then None else Some surface) ?v)"
    by (rule reset_oversized_eq)
  show "ShrinkToFit mk p =
     TraceStats (recreate mk (oversized_sizes p) (p\<lparr>available_surfaces := ?keep\<rparr>))"
    by (rule ShrinkToFit_eq)
  show av: "available_surfaces (ShrinkToFit mk p) = ?keep @ filter IsValid ?c"
    by (rule available_ShrinkToFit)
  show "length ?c = length (filter IsOversized ?v)" by simp
  show "next_buffer_id (ShrinkToFit mk p) =
      next_buffer_id p + of_nat (length (filter IsOversized ?v))"
    by (simp add: ShrinkToFit_eq TraceStats_def next_buffer_id_recreate)
  have c: "length (filter IsValid ?c) + length (filter (\<lambda>surface. \<not> IsValid surface) ?c) =
      length (filter IsOversized ?v)"
    using length_filter_split [of IsValid ?c] by simp
  have k: "length ?keep + length (filter IsOversized ?v) = length ?v"
    by (rule length_filter_split)
  show "length (available_surfaces (ShrinkToFit mk p)) +
      length (filter (\<lambda>surface. \<not> IsValid surface) ?c) = length ?v"
    using c k by (simp add: av)
  {
    assume all: "\<forall>surface\<in>set ?c. IsValid surface"
    then have f: "filter IsValid ?c = ?c" by simp
    show "length (available_surfaces (ShrinkToFit mk p)) = length ?v"
      using k by (simp add: av f)
    assume sz: "map GetSize ?c = oversized_sizes p"
    have "mset (map GetSize (available_surfaces (ShrinkToFit mk p))) =
        mset (map GetSize ?keep) + mset (map GetSize ?c)"
      by (simp add: av f)
    also have "\<dots> = mset (map GetSize ?keep) + mset (map GetSize (filter IsOversized ?v))"
      by (simp only: sz)
    also have "\<dots> = mset (map GetSize ?v)" by (rule mset_filter_split)
    finally show "mset (map GetSize (available_surfaces (ShrinkToFit mk p))) =
        mset (map GetSize ?v)" .
  }
qed

text \<open>
  C7. \<^verbatim>\<open>ShrinkToFit\<close>. The events of a call are, first, the destruction of every oversized
  available surface, in order, and only then the constructions: no surface is constructed
  among the first events, as many as there are oversized surfaces, and the surfaces
  constructed afterwards are exactly one for each recorded size, with consecutive
  identifiers, an invalid one being destroyed as soon as it is constructed. The first loop
  records the size of every oversized surface and resets its handle; surfaces that are not
  oversized stay as they are, in order. The valid constructed surfaces are appended to the
  pool in order, and each invalid one leaves the pool one surface short of its size before
  the call. If every constructed surface is valid the pool has as many surfaces as before,
  and if moreover every constructed surface has the size it was requested with, the sizes in
  the pool are, as a multiset, those before the call.
\<close>

theorem ShrinkToFit_replaces_every_oversized:
  "snd (ShrinkToFit_events mk p) = ShrinkToFit mk p \<and>
   fst (ShrinkToFit_events mk p) =
     map Destroyed (filter IsOversized (available_surfaces p)) @
     concat (map construction_events (constructed mk (next_buffer_id p) (oversized_sizes p))) \<and>
   take (length (filter IsOversized (available_surfaces p))) (fst (ShrinkToFit_events mk p)) =
     map Destroyed (filter IsOversized (available_surfaces p)) \<and>
   (\<forall>j<length (fst (ShrinkToFit_events mk p)).
      (\<exists>surface. fst (ShrinkToFit_events mk p) ! j = Constructed surface) \<longrightarrow>
      length (filter IsOversized (available_surfaces p)) \<le> j) \<and>
   constructions (fst (ShrinkToFit_events mk p)) =
     constructed mk (next_buffer_id p) (oversized_sizes p) \<and>
   reset_oversized (available_surfaces p) =
     (oversized_sizes p,
      map (\<lambda>surface. if IsOversized surface then None else Some surface) (available_surfaces p)) \<and>
   ShrinkToFit mk p =
     TraceStats (recreate mk (oversized_sizes p)
       (p\<lparr>available_surfaces := filter (\<lambda>surface. \<not> IsOversized surface) (available_surfaces p)\<rparr>)) \<and>
   available_surfaces (ShrinkToFit mk p) =
     filter (\<lambda>surface. \<not> IsOversized surface) (available_surfaces p) @
     filter IsValid (constructed mk (next_buffer_id p) (oversized_sizes p)) \<and>
   length (constructed mk (next_buffer_id p) (oversized_sizes p)) =
     length (filter IsOversized (available_surfaces p)) \<and>
   next_buffer_id (ShrinkToFit mk p) =
     next_buffer_id p + of_nat (length (filter IsOversized (available_surfaces p))) \<and>
   length (available_surfaces (ShrinkToFit mk p)) +
     length (filter (\<lambda>surface. \<not> IsValid surface)
               (constructed mk (next_buffer_id p) (oversized_sizes p))) =
     length (available_surfaces p) \<and>
   ((\<forall>surface\<in>set (constructed mk (next_buffer_id p) (oversized_sizes p)). IsValid surface) \<longrightarrow>
      length (available_surfaces (ShrinkToFit mk p)) = length (available_surfaces p) \<and>
      (map GetSize (constructed mk (next_buffer_id p) (oversized_sizes p)) = oversized_sizes p \<longrightarrow>
         mset (map GetSize (available_surfaces (ShrinkToFit mk p))) =
           mset (map GetSize (available_surfaces p))))"
proof -
  let ?d = "map Destroyed (filter IsOversized (available_surfaces p))"
  let ?e = "concat (map construction_events (constructed mk (next_buffer_id p) (oversized_sizes p)))"
  let ?n = "length (filter IsOversized (available_surfaces p))"
  have log: "fst (ShrinkToFit_events mk p) = ?d @ ?e" by (simp add: ShrinkToFit_events_eq)
  have st: "snd (ShrinkToFit_events mk p) = ShrinkToFit mk p" by (simp add: ShrinkToFit_events_eq)
  have prefix: "take ?n (fst (ShrinkToFit_events mk p)) = ?d" by (simp add: log)
  have later: "?n \<le> j"
    if "j < length (fst (ShrinkToFit_events mk p))"
      and "\<exists>surface. fst (ShrinkToFit_events mk p) ! j = Constructed surface" for j
  proof (rule ccontr)
    assume "\<not> ?n \<le> j"
    then have "j < length ?d" by simp
    then have "(?d @ ?e) ! j = Destroyed (filter IsOversized (available_surfaces p) ! j)"
      by (simp add: nth_append)
    with that(2) show False by (simp add: log)
  qed
  have cons: "constructions (fst (ShrinkToFit_events mk p)) =
      constructed mk (next_buffer_id p) (oversized_sizes p)"
    by (simp add: log)
  from st log prefix later cons ShrinkToFit_final_state [of p mk] show ?thesis by blast
qed

theorem ShrinkToFit_replaces_every_oversized_witness:
  "available_surfaces
     (ShrinkToFit mk_ok (pool_of [surface_over 1, surface_B, surface_big, surface_over 4]))
     = [surface_B, mk_ok size_A 7, mk_ok size_B 8, mk_ok size_A 9] \<and>
   length (available_surfaces
     (ShrinkToFit mk_ok (pool_of [surface_over 1, surface_B, surface_big, surface_over 4]))) = 4 \<and>
   mset (map GetSize (available_surfaces
     (ShrinkToFit mk_ok (pool_of [surface_over 1, surface_B, surface_big, surface_over 4]))))
     = mset [size_A, size_B, size_B, size_A] \<and>
   available_surfaces
     (ShrinkToFit mk_fail (pool_of [surface_over 1, surface_B, surface_big, surface_over 4]))
     = [surface_B] \<and>
   next_buffer_id
     (ShrinkToFit mk_fail (pool_of [surface_over 1, surface_B, surface_big, surface_over 4])) = 10 \<and>
   fst (ShrinkToFit_events mk_ok (pool_of [surface_over 1, surface_B, surface_big, surface_over 4]))
     = [Destroyed (surface_over 1), Destroyed surface_big, Destroyed (surface_over 4),
        Constructed (mk_ok size_A 7), Constructed (mk_ok size_B 8), Constructed (mk_ok size_A 9)] \<and>
   fst (ShrinkToFit_events mk_fail (pool_of [surface_over 1, surface_B, surface_big, surface_over 4]))
     = [Destroyed (surface_over 1), Destroyed surface_big, Destroyed (surface_over 4),
        Constructed (mk_fail size_A 7), Destroyed (mk_fail size_A 7),
        Constructed (mk_fail size_B 8), Destroyed (mk_fail size_B 8),
        Constructed (mk_fail size_A 9), Destroyed (mk_fail size_A 9)] \<and>
   (3::nat) \<le> 3"
proof -
  let ?v = "[surface_over 1, surface_B, surface_big, surface_over 4]"
  let ?p = "pool_of ?v"
  have av: "available_surfaces (pool_of xs) = xs" for xs by (simp add: pool_of_def)
  have nid: "next_buffer_id (pool_of xs) = 7" for xs by (simp add: pool_of_def)
  have facts: "\<not> IsOversized surface_B" "IsOversized surface_big" "IsOversized (surface_over n)"
    "GetSize (surface_over n) = size_A" "GetSize surface_big = size_B" "GetSize surface_B = size_B"
    "IsValid (mk_ok sz m)" "\<not> IsValid (mk_fail sz m)" "GetSize (mk_ok sz m) = sz" for n sz m
    by (simp_all add: surface_B_def surface_big_def surface_over_def mk_ok_def mk_fail_def)
  have sizes: "oversized_sizes ?p = [size_A, size_B, size_A]"
    by (simp add: av facts)
  have keep: "filter (\<lambda>surface. \<not> IsOversized surface) (available_surfaces ?p) = [surface_B]"
    by (simp add: av facts)
  have c_ok: "constructed mk_ok (next_buffer_id ?p) (oversized_sizes ?p) =
      [mk_ok size_A 7, mk_ok size_B 8, mk_ok size_A 9]"
    unfolding sizes nid by simp
  have c_bad: "constructed mk_fail (next_buffer_id ?p) (oversized_sizes ?p) =
      [mk_fail size_A 7, mk_fail size_B 8, mk_fail size_A 9]"
    unfolding sizes nid by simp
  note T_ok = ShrinkToFit_replaces_every_oversized [of mk_ok ?p]
  note T_bad = ShrinkToFit_replaces_every_oversized [of mk_fail ?p]
  have all: "\<forall>surface\<in>set (constructed mk_ok (next_buffer_id ?p) (oversized_sizes ?p)). IsValid surface"
    unfolding c_ok by (simp add: facts)
  have same: "map GetSize (constructed mk_ok (next_buffer_id ?p) (oversized_sizes ?p)) =
      oversized_sizes ?p"
    unfolding c_ok sizes by (simp add: facts)
  from T_ok have "available_surfaces (ShrinkToFit mk_ok ?p) =
      filter (\<lambda>surface. \<not> IsOversized surface) (available_surfaces ?p) @
      filter IsValid (constructed mk_ok (next_buffer_id ?p) (oversized_sizes ?p))"
    by blast
  then have a: "available_surfaces (ShrinkToFit mk_ok ?p) =
      [surface_B, mk_ok size_A 7, mk_ok size_B 8, mk_ok size_A 9]"
    unfolding keep c_ok by (simp add: facts)
  from T_ok all have "length (available_surfaces (ShrinkToFit mk_ok ?p)) =
      length (available_surfaces ?p)"
    by blast
  then have b: "length (available_surfaces (ShrinkToFit mk_ok ?p)) = 4"
    by (simp add: av)
  from T_ok all same have "mset (map GetSize (available_surfaces (ShrinkToFit mk_ok ?p))) =
      mset (map GetSize (available_surfaces ?p))"
    by blast
  then have c: "mset (map GetSize (available_surfaces (ShrinkToFit mk_ok ?p))) =
      mset [size_A, size_B, size_B, size_A]"
    by (simp add: av facts)
  from T_bad have "available_surfaces (ShrinkToFit mk_fail ?p) =
      filter (\<lambda>surface. \<not> IsOversized surface) (available_surfaces ?p) @
      filter IsValid (constructed mk_fail (next_buffer_id ?p) (oversized_sizes ?p))"
    by blast
  then have d: "available_surfaces (ShrinkToFit mk_fail ?p) = [surface_B]"
    unfolding keep c_bad by (simp add: facts)
  from T_bad have "next_buffer_id (ShrinkToFit mk_fail ?p) =
      next_buffer_id ?p + of_nat (length (filter IsOversized (available_surfaces ?p)))"
    by blast
  then have e: "next_buffer_id (ShrinkToFit mk_fail ?p) = 10"
    by (simp add: av nid facts)
  have over: "filter IsOversized (available_surfaces ?p) =
      [surface_over 1, surface_big, surface_over 4]"
    by (simp add: av facts)
  from T_ok have "fst (ShrinkToFit_events mk_ok ?p) =
      map Destroyed (filter IsOversized (available_surfaces ?p)) @
      concat (map construction_events (constructed mk_ok (next_buffer_id ?p) (oversized_sizes ?p)))"
    by blast
  then have f: "fst (ShrinkToFit_events mk_ok ?p) =
      [Destroyed (surface_over 1), Destroyed surface_big, Destroyed (surface_over 4),
       Constructed (mk_ok size_A 7), Constructed (mk_ok size_B 8), Constructed (mk_ok size_A 9)]"
    by (simp add: construction_events_def facts av nid)
  from T_bad have "fst (ShrinkToFit_events mk_fail ?p) =
      map Destroyed (filter IsOversized (available_surfaces ?p)) @
      concat (map construction_events (constructed mk_fail (next_buffer_id ?p) (oversized_sizes ?p)))"
    by blast
  then have g: "fst (ShrinkToFit_events mk_fail ?p) =
      [Destroyed (surface_over 1), Destroyed surface_big, Destroyed (surface_over 4),
       Constructed (mk_fail size_A 7), Destroyed (mk_fail size_A 7),
       Constructed (mk_fail size_B 8), Destroyed (mk_fail size_B 8),
       Constructed (mk_fail size_A 9), Destroyed (mk_fail size_A 9)]"
    by (simp add: construction_events_def facts av nid)
  have j: "3 < length (fst (ShrinkToFit_events mk_ok ?p))" unfolding f by simp
  have k: "\<exists>surface. fst (ShrinkToFit_events mk_ok ?p) ! 3 = Constructed surface"
    unfolding f by simp
  from T_ok have "\<forall>j<length (fst (ShrinkToFit_events mk_ok ?p)).
      (\<exists>surface. fst (ShrinkToFit_events mk_ok ?p) ! j = Constructed surface) \<longrightarrow>
      length (filter IsOversized (available_surfaces ?p)) \<le> j"
    by blast
  with j k have "length (filter IsOversized (available_surfaces ?p)) \<le> 3" by blast
  then have h: "(3::nat) \<le> 3" unfolding over by simp
  from a b c d e f g h show ?thesis by simp
qed

section \<open>The bound on the available surfaces\<close>

lemma length_GetCachedOrCreateSurface:
  "length (available_surfaces (snd (GetCachedOrCreateSurface mk sz p))) \<le>
     length (available_surfaces p)"
proof (cases "\<exists>x\<in>set (available_surfaces p). IsValid x \<and> GetSize x = sz")
  case True
  let ?i = "find_if (\<lambda>surface. IsValid surface \<and> GetSize surface = sz) (available_surfaces p)"
  have "length (erase ?i (available_surfaces p)) \<le> length (available_surfaces p)"
    by (simp add: erase_def)
  then show ?thesis by (simp add: GetCachedOrCreateSurface_hit [OF True])
next
  case False
  then have "GetCachedOrCreateSurface mk sz p = CreateSurface mk sz p"
    by (intro GetCachedOrCreateSurface_miss) blast
  then show ?thesis by simp
qed

lemma available_SubmitSurface [simp]:
  "available_surfaces (SubmitSurface p_surface p) = available_surfaces p"
  by (simp add: SubmitSurface_def Let_def split: option.splits)

lemma available_TraceStats [simp]:
  "available_surfaces (TraceStats p) = available_surfaces p"
  by (simp add: TraceStats_def)

lemma length_RecycleSurface:
  "length (available_surfaces p) \<le> k \<Longrightarrow>
   length (available_surfaces (RecycleSurface k surface p)) \<le> k"
  by (simp add: RecycleSurface_def)

lemma length_RecyclePendingSurface:
  "length (available_surfaces p) \<le> k \<Longrightarrow>
   length (available_surfaces (RecyclePendingSurface k surface_key p)) \<le> k"
  by (cases "pending_surfaces p surface_key")
     (simp_all add: RecyclePendingSurface_def length_RecycleSurface)

lemma length_AgeAndCollectOldBuffers:
  "length (available_surfaces (AgeAndCollectOldBuffers mk age_limit p)) \<le>
     length (available_surfaces p)"
proof -
  have "length (available_surfaces (replace_oversized mk (collect_old age_limit p))) \<le>
      length (available_surfaces (collect_old age_limit p))"
    by (rule length_replace_oversized)
  also have "\<dots> \<le> length (available_surfaces p)"
    by (simp add: collect_old_def length_remove_if)
  finally show ?thesis by (simp add: AgeAndCollectOldBuffers_def)
qed

lemma length_ShrinkToFit:
  "length (available_surfaces (ShrinkToFit mk p)) \<le> length (available_surfaces p)"
proof -
  let ?c = "constructed mk (next_buffer_id p) (oversized_sizes p)"
  have "length (filter IsValid ?c) \<le> length ?c" by (rule length_filter_le)
  then have "length (filter IsValid ?c) \<le> length (filter IsOversized (available_surfaces p))"
    by simp
  moreover have "length (filter (\<lambda>surface. \<not> IsOversized surface) (available_surfaces p)) +
      length (filter IsOversized (available_surfaces p)) = length (available_surfaces p)"
    by (rule length_filter_split)
  ultimately show ?thesis by (simp add: available_ShrinkToFit)
qed

text \<open>
  C4. If the pool holds at most \<^verbatim>\<open>kMaxSurfaces\<close> available surfaces before an operation, it
  holds at most \<^verbatim>\<open>kMaxSurfaces\<close> after it, for every operation of the pool: acquiring (with
  its cached-or-create step), creating, submitting, recycling a pending surface, recycling,
  aging and collecting, shrinking to fit, and reporting the statistics.
\<close>

theorem available_surfaces_stay_bounded:
  assumes "length (available_surfaces p) \<le> kMaxSurfaces"
  shows
    "length (available_surfaces (snd (AcquireSurface mk sz p))) \<le> kMaxSurfaces \<and>
     length (available_surfaces (snd (GetCachedOrCreateSurface mk sz p))) \<le> kMaxSurfaces \<and>
     length (available_surfaces (snd (CreateSurface mk sz p))) \<le> kMaxSurfaces \<and>
     length (available_surfaces (SubmitSurface p_surface p)) \<le> kMaxSurfaces \<and>
     length (available_surfaces (RecyclePendingSurface kMaxSurfaces surface_key p)) \<le> kMaxSurfaces \<and>
     length (available_surfaces (RecycleSurface kMaxSurfaces surface p)) \<le> kMaxSurfaces \<and>
     length (available_surfaces (AgeAndCollectOldBuffers mk kMaxSurfaceAge p)) \<le> kMaxSurfaces \<and>
     length (available_surfaces (ShrinkToFit mk p)) \<le> kMaxSurfaces \<and>
     length (available_surfaces (TraceStats p)) \<le> kMaxSurfaces"
proof (intro conjI)
  have g: "length (available_surfaces (snd (GetCachedOrCreateSurface mk sz p))) \<le> kMaxSurfaces"
    using length_GetCachedOrCreateSurface [of mk sz p] assms by simp
  then show "length (available_surfaces (snd (AcquireSurface mk sz p))) \<le> kMaxSurfaces"
    by simp
  show "length (available_surfaces (snd (GetCachedOrCreateSurface mk sz p))) \<le> kMaxSurfaces"
    by (rule g)
  show "length (available_surfaces (snd (CreateSurface mk sz p))) \<le> kMaxSurfaces"
    using assms by simp
  show "length (available_surfaces (SubmitSurface p_surface p)) \<le> kMaxSurfaces"
    using assms by simp
  show "length (available_surfaces (RecyclePendingSurface kMaxSurfaces surface_key p)) \<le> kMaxSurfaces"
    using assms by (rule length_RecyclePendingSurface)
  show "length (available_surfaces (RecycleSurface kMaxSurfaces surface p)) \<le> kMaxSurfaces"
    using assms by (rule length_RecycleSurface)
  show "length (available_surfaces (AgeAndCollectOldBuffers mk kMaxSurfaceAge p)) \<le> kMaxSurfaces"
    using length_AgeAndCollectOldBuffers [of mk kMaxSurfaceAge p] assms by simp
  show "length (available_surfaces (ShrinkToFit mk p)) \<le> kMaxSurfaces"
    using length_ShrinkToFit [of mk p] assms by simp
  show "length (available_surfaces (TraceStats p)) \<le> kMaxSurfaces"
    using assms by simp
qed

theorem available_surfaces_stay_bounded_witness:
  "length (available_surfaces (pool_of [surface_over 1, surface_B])) \<le> 2 \<and>
   length (available_surfaces (RecycleSurface 2 surface_A (pool_of [surface_over 1, surface_B]))) \<le> 2 \<and>
   length (available_surfaces
     (RecyclePendingSurface 2 4352
        ((pool_of [surface_over 1, surface_B])\<lparr>pending_surfaces := [4352 \<mapsto> surface_A]\<rparr>))) \<le> 2 \<and>
   length (available_surfaces
     (AgeAndCollectOldBuffers mk_ok 3 (pool_of [surface_over 1, surface_B]))) \<le> 2 \<and>
   length (available_surfaces (ShrinkToFit mk_ok (pool_of [surface_over 1, surface_B]))) \<le> 2 \<and>
   length (available_surfaces
     (snd (AcquireSurface mk_ok size_A (pool_of [surface_over 1, surface_B])))) \<le> 2"
proof -
  let ?p = "pool_of [surface_over 1, surface_B]"
  let ?q = "?p\<lparr>pending_surfaces := [4352 \<mapsto> surface_A]\<rparr>"
  have p: "length (available_surfaces ?p) \<le> 2" by (simp add: pool_of_def)
  have q: "length (available_surfaces ?q) \<le> 2" by (simp add: pool_of_def)
  show ?thesis
    using p available_surfaces_stay_bounded [OF p, of mk_ok size_A None 4352 surface_A 3]
      available_surfaces_stay_bounded [OF q, of mk_ok size_A None 4352 surface_A 3]
    by blast
qed

section \<open>The trace counters\<close>

lemma trace_created_recreate:
  "trace_surfaces_created (recreate mk sizes p) =
     trace_surfaces_created p +
       of_nat (length (filter IsValid (constructed mk (next_buffer_id p) sizes)))"
proof (induction sizes arbitrary: p)
  case Nil
  show ?case by simp
next
  case (Cons sz sizes)
  show ?case
  proof (cases "IsValid (mk sz (next_buffer_id p))")
    case True
    then show ?thesis by (simp add: CreateSurface_valid Cons.IH)
  next
    case False
    then show ?thesis by (simp add: CreateSurface_invalid Cons.IH)
  qed
qed

lemma trace_reused_recreate:
  "trace_surfaces_reused (recreate mk sizes p) = trace_surfaces_reused p"
proof (induction sizes arbitrary: p)
  case Nil
  show ?case by simp
next
  case (Cons sz sizes)
  show ?case
  proof (cases "IsValid (mk sz (next_buffer_id p))")
    case True
    then show ?thesis by (simp add: CreateSurface_valid Cons.IH)
  next
    case False
    then show ?thesis by (simp add: CreateSurface_invalid Cons.IH)
  qed
qed

lemma trace_counters_replace_oversized:
  assumes "i < length (available_surfaces p)"
    and "IsOversized (available_surfaces p ! i)" and "HasStableSizeHistory (available_surfaces p ! i)"
    and "\<forall>j<i. \<not> (IsOversized (available_surfaces p ! j) \<and>
                   HasStableSizeHistory (available_surfaces p ! j))"
  shows "trace_surfaces_created (replace_oversized mk p) =
      (if IsValid (mk (GetSize (available_surfaces p ! i)) (next_buffer_id p))
       then trace_surfaces_created p + 1 else trace_surfaces_created p)"
    and "trace_surfaces_reused (replace_oversized mk p) = trace_surfaces_reused p"
proof -
  have i: "find_if (\<lambda>surface. IsOversized surface \<and> HasStableSizeHistory surface)
      (available_surfaces p) = i"
    using assms by (intro find_if_first) simp_all
  from assms(1) have ne: "i \<noteq> length (available_surfaces p)" by simp
  note r = replace_oversized_at [OF i ne, of mk]
  show "trace_surfaces_created (replace_oversized mk p) =
      (if IsValid (mk (GetSize (available_surfaces p ! i)) (next_buffer_id p))
       then trace_surfaces_created p + 1 else trace_surfaces_created p)"
    by (simp add: r)
  show "trace_surfaces_reused (replace_oversized mk p) = trace_surfaces_reused p"
    by (simp add: r)
qed

lemma trace_counters_acquire_create:
  "((\<exists>x\<in>set (available_surfaces p). IsValid x \<and> GetSize x = sz) \<longrightarrow>
      trace_surfaces_created (snd (AcquireSurface mk sz p)) = trace_surfaces_created p \<and>
      trace_surfaces_reused (snd (AcquireSurface mk sz p)) = trace_surfaces_reused p \<and>
      trace_surfaces_created (snd (GetCachedOrCreateSurface mk sz p)) = trace_surfaces_created p \<and>
      trace_surfaces_reused (snd (GetCachedOrCreateSurface mk sz p)) = trace_surfaces_reused p) \<and>
   (IsValid (mk sz (next_buffer_id p)) \<longrightarrow>
      fst (CreateSurface mk sz p) = Some (mk sz (next_buffer_id p)) \<and>
      trace_surfaces_created (snd (CreateSurface mk sz p)) = trace_surfaces_created p + 1 \<and>
      trace_surfaces_reused (snd (CreateSurface mk sz p)) = trace_surfaces_reused p) \<and>
   (\<not> IsValid (mk sz (next_buffer_id p)) \<longrightarrow>
      fst (CreateSurface mk sz p) = None \<and>
      trace_surfaces_created (snd (CreateSurface mk sz p)) = trace_surfaces_created p \<and>
      trace_surfaces_reused (snd (CreateSurface mk sz p)) = trace_surfaces_reused p) \<and>
   ((\<forall>x\<in>set (available_surfaces p). \<not> (IsValid x \<and> GetSize x = sz)) \<longrightarrow>
      snd (AcquireSurface mk sz p) = snd (CreateSurface mk sz p))"
proof (intro conjI impI)
  assume hit: "\<exists>x\<in>set (available_surfaces p). IsValid x \<and> GetSize x = sz"
  note h = GetCachedOrCreateSurface_hit [OF hit, of mk]
  show "trace_surfaces_created (snd (AcquireSurface mk sz p)) = trace_surfaces_created p"
    by (simp add: h)
  show "trace_surfaces_reused (snd (AcquireSurface mk sz p)) = trace_surfaces_reused p"
    by (simp add: h)
  show "trace_surfaces_created (snd (GetCachedOrCreateSurface mk sz p)) = trace_surfaces_created p"
    by (simp add: h)
  show "trace_surfaces_reused (snd (GetCachedOrCreateSurface mk sz p)) = trace_surfaces_reused p"
    by (simp add: h)
next
  assume v: "IsValid (mk sz (next_buffer_id p))"
  note c = CreateSurface_valid [of mk sz p, OF v]
  show "fst (CreateSurface mk sz p) = Some (mk sz (next_buffer_id p))" by (simp add: c)
  show "trace_surfaces_created (snd (CreateSurface mk sz p)) = trace_surfaces_created p + 1"
    by (simp add: c)
  show "trace_surfaces_reused (snd (CreateSurface mk sz p)) = trace_surfaces_reused p"
    by (simp add: c)
next
  assume v: "\<not> IsValid (mk sz (next_buffer_id p))"
  note c = CreateSurface_invalid [of mk sz p, OF v]
  show "fst (CreateSurface mk sz p) = None" by (simp add: c)
  show "trace_surfaces_created (snd (CreateSurface mk sz p)) = trace_surfaces_created p"
    by (simp add: c)
  show "trace_surfaces_reused (snd (CreateSurface mk sz p)) = trace_surfaces_reused p"
    by (simp add: c)
next
  assume "\<forall>x\<in>set (available_surfaces p). \<not> (IsValid x \<and> GetSize x = sz)"
  then show "snd (AcquireSurface mk sz p) = snd (CreateSurface mk sz p)"
    by (simp add: GetCachedOrCreateSurface_miss)
qed


text \<open>
  C9. An acquisition that reuses an available surface changes neither trace counter, in
  \<^verbatim>\<open>GetCachedOrCreateSurface\<close> and so in \<^verbatim>\<open>AcquireSurface\<close>. \<^verbatim>\<open>CreateSurface\<close> adds exactly
  one to the created counter when the new surface is valid and returns it; when the new
  surface is invalid it returns null and changes neither trace counter. An acquisition that
  finds no match leaves the state that \<^verbatim>\<open>CreateSurface\<close> leaves. The replacements count in
  the same way. In \<^verbatim>\<open>AgeAndCollectOldBuffers\<close> the filtering pass changes neither counter
  and the replacement step, on the state it is given, adds exactly one to the created counter
  when it replaces a surface and the new surface is valid, and changes neither counter
  when the new surface is invalid or nothing is replaced. In \<^verbatim>\<open>ShrinkToFit\<close> the second
  loop adds to the created counter exactly the number of valid surfaces it constructs. The
  reused counter never changes. Both operations then report through \<^verbatim>\<open>TraceStats\<close>.
\<close>

theorem trace_counters_on_reuse_and_create:
  "((\<exists>x\<in>set (available_surfaces p). IsValid x \<and> GetSize x = sz) \<longrightarrow>
      trace_surfaces_created (snd (AcquireSurface mk sz p)) = trace_surfaces_created p \<and>
      trace_surfaces_reused (snd (AcquireSurface mk sz p)) = trace_surfaces_reused p \<and>
      trace_surfaces_created (snd (GetCachedOrCreateSurface mk sz p)) = trace_surfaces_created p \<and>
      trace_surfaces_reused (snd (GetCachedOrCreateSurface mk sz p)) = trace_surfaces_reused p) \<and>
   (IsValid (mk sz (next_buffer_id p)) \<longrightarrow>
      fst (CreateSurface mk sz p) = Some (mk sz (next_buffer_id p)) \<and>
      trace_surfaces_created (snd (CreateSurface mk sz p)) = trace_surfaces_created p + 1 \<and>
      trace_surfaces_reused (snd (CreateSurface mk sz p)) = trace_surfaces_reused p) \<and>
   (\<not> IsValid (mk sz (next_buffer_id p)) \<longrightarrow>
      fst (CreateSurface mk sz p) = None \<and>
      trace_surfaces_created (snd (CreateSurface mk sz p)) = trace_surfaces_created p \<and>
      trace_surfaces_reused (snd (CreateSurface mk sz p)) = trace_surfaces_reused p) \<and>
   ((\<forall>x\<in>set (available_surfaces p). \<not> (IsValid x \<and> GetSize x = sz)) \<longrightarrow>
      snd (AcquireSurface mk sz p) = snd (CreateSurface mk sz p)) \<and>
   AgeAndCollectOldBuffers mk kMaxSurfaceAge p =
     TraceStats (replace_oversized mk (collect_old kMaxSurfaceAge p)) \<and>
   trace_surfaces_created (collect_old kMaxSurfaceAge p) = trace_surfaces_created p \<and>
   trace_surfaces_reused (collect_old kMaxSurfaceAge p) = trace_surfaces_reused p \<and>
   ((\<forall>x\<in>set (available_surfaces p). \<not> (IsOversized x \<and> HasStableSizeHistory x)) \<longrightarrow>
      trace_surfaces_created (replace_oversized mk p) = trace_surfaces_created p \<and>
      trace_surfaces_reused (replace_oversized mk p) = trace_surfaces_reused p) \<and>
   (\<forall>i. i < length (available_surfaces p) \<and>
        IsOversized (available_surfaces p ! i) \<and> HasStableSizeHistory (available_surfaces p ! i) \<and>
        (\<forall>j<i. \<not> (IsOversized (available_surfaces p ! j) \<and>
                   HasStableSizeHistory (available_surfaces p ! j)))
      \<longrightarrow>
        trace_surfaces_created (replace_oversized mk p) =
          (if IsValid (mk (GetSize (available_surfaces p ! i)) (next_buffer_id p))
           then trace_surfaces_created p + 1 else trace_surfaces_created p) \<and>
        trace_surfaces_reused (replace_oversized mk p) = trace_surfaces_reused p) \<and>
   ShrinkToFit mk p =
     TraceStats (recreate mk (oversized_sizes p)
       (p\<lparr>available_surfaces := filter (\<lambda>surface. \<not> IsOversized surface) (available_surfaces p)\<rparr>)) \<and>
   trace_surfaces_created (recreate mk sizes p) =
     trace_surfaces_created p +
       of_nat (length (filter IsValid (constructed mk (next_buffer_id p) sizes))) \<and>
   trace_surfaces_reused (recreate mk sizes p) = trace_surfaces_reused p"
proof -
  have a: "AgeAndCollectOldBuffers mk kMaxSurfaceAge p =
      TraceStats (replace_oversized mk (collect_old kMaxSurfaceAge p))"
    by (simp add: AgeAndCollectOldBuffers_def)
  have b: "trace_surfaces_created (collect_old kMaxSurfaceAge p) = trace_surfaces_created p"
    "trace_surfaces_reused (collect_old kMaxSurfaceAge p) = trace_surfaces_reused p"
    by (simp_all add: collect_old_def)
  have c: "trace_surfaces_created (replace_oversized mk p) = trace_surfaces_created p \<and>
      trace_surfaces_reused (replace_oversized mk p) = trace_surfaces_reused p"
    if "\<forall>x\<in>set (available_surfaces p). \<not> (IsOversized x \<and> HasStableSizeHistory x)"
    using that by (simp add: replace_oversized_none)
  have d: "trace_surfaces_created (replace_oversized mk p) =
          (if IsValid (mk (GetSize (available_surfaces p ! i)) (next_buffer_id p))
           then trace_surfaces_created p + 1 else trace_surfaces_created p) \<and>
        trace_surfaces_reused (replace_oversized mk p) = trace_surfaces_reused p"
    if "i < length (available_surfaces p) \<and>
        IsOversized (available_surfaces p ! i) \<and> HasStableSizeHistory (available_surfaces p ! i) \<and>
        (\<forall>j<i. \<not> (IsOversized (available_surfaces p ! j) \<and>
                   HasStableSizeHistory (available_surfaces p ! j)))" for i
    using that trace_counters_replace_oversized [of i p mk] by blast
  have e: "ShrinkToFit mk p =
     TraceStats (recreate mk (oversized_sizes p)
       (p\<lparr>available_surfaces := filter (\<lambda>surface. \<not> IsOversized surface) (available_surfaces p)\<rparr>))"
    by (rule ShrinkToFit_eq)
  note f = trace_created_recreate [of mk sizes p] trace_reused_recreate [of mk sizes p]
  from trace_counters_acquire_create [of p sz mk] a b c d e f show ?thesis by blast
qed

theorem trace_counters_on_reuse_and_create_witness:
  "(\<exists>x\<in>set (available_surfaces (pool_of [surface_B, surface_A])). IsValid x \<and> GetSize x = size_A) \<and>
   trace_surfaces_created (snd (AcquireSurface mk_ok size_A (pool_of [surface_B, surface_A]))) = 0 \<and>
   trace_surfaces_reused (snd (AcquireSurface mk_ok size_A (pool_of [surface_B, surface_A]))) = 0 \<and>
   IsValid (mk_ok size_A (next_buffer_id (pool_of [surface_B]))) \<and>
   trace_surfaces_created (snd (CreateSurface mk_ok size_A (pool_of [surface_B]))) = 1 \<and>
   \<not> IsValid (mk_fail size_A (next_buffer_id (pool_of [surface_B]))) \<and>
   fst (CreateSurface mk_fail size_A (pool_of [surface_B])) = None \<and>
   trace_surfaces_created (snd (CreateSurface mk_fail size_A (pool_of [surface_B]))) = 0 \<and>
   available_surfaces (pool_of [surface_B]) = [surface_B] \<and> GetSize surface_B \<noteq> size_A \<and>
   snd (AcquireSurface mk_ok size_A (pool_of [surface_B])) =
     snd (CreateSurface mk_ok size_A (pool_of [surface_B])) \<and>
   trace_surfaces_created (replace_oversized mk_ok (pool_of [surface_B, surface_over 1])) = 1 \<and>
   trace_surfaces_created (replace_oversized mk_fail (pool_of [surface_B, surface_over 1])) = 0 \<and>
   trace_surfaces_created (replace_oversized mk_ok (pool_of [surface_B])) = 0 \<and>
   trace_surfaces_created (recreate mk_ok [size_A, size_B] (pool_of [surface_B])) = 2 \<and>
   trace_surfaces_created (recreate mk_fail [size_A, size_B] (pool_of [surface_B])) = 0"
proof -
  have hit: "\<exists>x\<in>set (available_surfaces (pool_of [surface_B, surface_A])).
      IsValid x \<and> GetSize x = size_A"
    by (simp add: pool_of_def surface_A_def mk_ok_def)
  have miss: "\<forall>x\<in>set (available_surfaces (pool_of [surface_B])). \<not> (IsValid x \<and> GetSize x = size_A)"
    by (simp add: pool_of_def surface_B_def mk_ok_def size_A_def size_B_def)
  have ok: "IsValid (mk_ok size_A (next_buffer_id (pool_of [surface_B])))"
    by (simp add: mk_ok_def)
  have bad: "\<not> IsValid (mk_fail size_A (next_buffer_id (pool_of [surface_B])))"
    by (simp add: mk_fail_def)
  have zero: "trace_surfaces_created (pool_of xs) = 0" "trace_surfaces_reused (pool_of xs) = 0" for xs
    by (simp_all add: pool_of_def initial_pool_def)
  have base: "(\<exists>x\<in>set (available_surfaces (pool_of [surface_B, surface_A])). IsValid x \<and> GetSize x = size_A) \<and>
   trace_surfaces_created (snd (AcquireSurface mk_ok size_A (pool_of [surface_B, surface_A]))) = 0 \<and>
   trace_surfaces_reused (snd (AcquireSurface mk_ok size_A (pool_of [surface_B, surface_A]))) = 0 \<and>
   IsValid (mk_ok size_A (next_buffer_id (pool_of [surface_B]))) \<and>
   trace_surfaces_created (snd (CreateSurface mk_ok size_A (pool_of [surface_B]))) = 1 \<and>
   \<not> IsValid (mk_fail size_A (next_buffer_id (pool_of [surface_B]))) \<and>
   fst (CreateSurface mk_fail size_A (pool_of [surface_B])) = None \<and>
   trace_surfaces_created (snd (CreateSurface mk_fail size_A (pool_of [surface_B]))) = 0 \<and>
   available_surfaces (pool_of [surface_B]) = [surface_B] \<and> GetSize surface_B \<noteq> size_A \<and>
   snd (AcquireSurface mk_ok size_A (pool_of [surface_B])) =
     snd (CreateSurface mk_ok size_A (pool_of [surface_B]))"
    using trace_counters_on_reuse_and_create [where p = "pool_of [surface_B, surface_A]" and sz = size_A and mk = mk_ok]
      trace_counters_on_reuse_and_create [where p = "pool_of [surface_B]" and sz = size_A and mk = mk_ok]
      trace_counters_on_reuse_and_create [where p = "pool_of [surface_B]" and sz = size_A and mk = mk_fail]
      hit miss ok bad
    by (simp add: zero) (simp add: pool_of_def surface_B_def mk_ok_def size_A_def size_B_def)
  let ?r = "pool_of [surface_B, surface_over 1]"
  have av: "available_surfaces (pool_of xs) = xs" for xs by (simp add: pool_of_def)
  have nid: "next_buffer_id (pool_of xs) = 7" for xs by (simp add: pool_of_def)
  have facts: "\<not> IsOversized surface_B" "IsOversized (surface_over n)"
    "HasStableSizeHistory (surface_over n)" "IsValid (mk_ok s m)" "\<not> IsValid (mk_fail s m)" for n s m
    by (simp_all add: surface_B_def surface_over_def mk_ok_def mk_fail_def)
  have pre: "1 < length (available_surfaces ?r) \<and>
        IsOversized (available_surfaces ?r ! 1) \<and> HasStableSizeHistory (available_surfaces ?r ! 1) \<and>
        (\<forall>j<1. \<not> (IsOversized (available_surfaces ?r ! j) \<and>
                   HasStableSizeHistory (available_surfaces ?r ! j)))"
    unfolding av using facts by simp
  have "trace_surfaces_created (replace_oversized mk_ok ?r) =
      (if IsValid (mk_ok (GetSize (available_surfaces ?r ! 1)) (next_buffer_id ?r))
       then trace_surfaces_created ?r + 1 else trace_surfaces_created ?r)"
    using trace_counters_on_reuse_and_create [where p = ?r and mk = mk_ok] pre by blast
  then have r1: "trace_surfaces_created (replace_oversized mk_ok ?r) = 1"
    by (simp add: facts zero)
  have "trace_surfaces_created (replace_oversized mk_fail ?r) =
      (if IsValid (mk_fail (GetSize (available_surfaces ?r ! 1)) (next_buffer_id ?r))
       then trace_surfaces_created ?r + 1 else trace_surfaces_created ?r)"
    using trace_counters_on_reuse_and_create [where p = ?r and mk = mk_fail] pre by blast
  then have r2: "trace_surfaces_created (replace_oversized mk_fail ?r) = 0"
    by (simp add: facts zero)
  have none: "\<forall>x\<in>set (available_surfaces (pool_of [surface_B])).
      \<not> (IsOversized x \<and> HasStableSizeHistory x)"
    unfolding av using facts by simp
  have "trace_surfaces_created (replace_oversized mk_ok (pool_of [surface_B])) =
      trace_surfaces_created (pool_of [surface_B])"
    using trace_counters_on_reuse_and_create [where p = "pool_of [surface_B]" and mk = mk_ok] none
    by blast
  then have r3: "trace_surfaces_created (replace_oversized mk_ok (pool_of [surface_B])) = 0"
    by (simp add: zero)
  have "trace_surfaces_created (recreate mk_ok [size_A, size_B] (pool_of [surface_B])) =
      trace_surfaces_created (pool_of [surface_B]) +
        of_nat (length (filter IsValid
          (constructed mk_ok (next_buffer_id (pool_of [surface_B])) [size_A, size_B])))"
    using trace_counters_on_reuse_and_create
      [where p = "pool_of [surface_B]" and mk = mk_ok and sizes = "[size_A, size_B]"]
    by blast
  then have r4: "trace_surfaces_created (recreate mk_ok [size_A, size_B] (pool_of [surface_B])) = 2"
    by (simp add: facts zero)
  have "trace_surfaces_created (recreate mk_fail [size_A, size_B] (pool_of [surface_B])) =
      trace_surfaces_created (pool_of [surface_B]) +
        of_nat (length (filter IsValid
          (constructed mk_fail (next_buffer_id (pool_of [surface_B])) [size_A, size_B])))"
    using trace_counters_on_reuse_and_create
      [where p = "pool_of [surface_B]" and mk = mk_fail and sizes = "[size_A, size_B]"]
    by blast
  then have r5: "trace_surfaces_created (recreate mk_fail [size_A, size_B] (pool_of [surface_B])) = 0"
    by (simp add: facts zero)
  from base r1 r2 r3 r4 r5 show ?thesis by blast
qed

end
